theory Spec2Isabelle
  imports Complex_Main "HOL-Library.Sublist"
begin

section \<open>JavaScript primitives used by the download orchestrator\<close>

text \<open>
  Strings are lists of code units; the code units below 256 are the ones a \<open>char\<close>
  can hold. Pack numbers are unbounded integers; a JavaScript number is a double, so the
  model agrees with the program as long as every parsed value is a safe integer (at most
  \<open>2 ^ 53\<close>). \<open>NaN\<close>, the only non-integer the parser can return, is \<open>None\<close>.
\<close>

text \<open>
  Modelled from the spec: the error codes of \<open>types-global/errors.ts\<close>, a file that is
  not among the sources. The two codes the tools name are kept.
\<close>

datatype BaseErrorCode = VALIDATION_ERROR | INTERNAL_ERROR

text \<open>
  What the modelled functions can throw: the \<open>RangeError\<close> of an invalid array length,
  an error of the file system, and the \<open>McpError\<close> with its code and message.
\<close>

datatype error =
    RangeError
  | FsError string
  | McpError BaseErrorCode string

definition is_ws :: "char \<Rightarrow> bool" where
  \<comment> \<open>the white space and line terminator code units below 256\<close>
  "is_ws c = (of_char c \<in> {9, 10, 11, 12, 13, 32, 160 :: nat})"

definition is_digit :: "char \<Rightarrow> bool" where
  "is_digit c = (48 \<le> (of_char c :: nat) \<and> (of_char c :: nat) \<le> 57)"

definition digit_val :: "char \<Rightarrow> nat" where
  "digit_val c = of_char c - 48"

definition trim :: "string \<Rightarrow> string" where
  \<comment> \<open>\<open>String.prototype.trim\<close>\<close>
  "trim s = rev (dropWhile is_ws (rev (dropWhile is_ws s)))"

fun split_on :: "char \<Rightarrow> string \<Rightarrow> string list" where
  \<comment> \<open>\<open>s.split(c)\<close> for a one-character separator: the empty string gives one empty piece\<close>
  "split_on c [] = [[]]"
| "split_on c (x # xs) =
     (if x = c then [] # split_on c xs
      else (case split_on c xs of [] \<Rightarrow> [[x]] | p # ps \<Rightarrow> (x # p) # ps))"

definition digits_value :: "string \<Rightarrow> nat" where
  "digits_value ds = foldl (\<lambda>a c. 10 * a + digit_val c) 0 ds"

definition parseInt :: "string \<Rightarrow> int option" where
  \<comment> \<open>\<open>parseInt(s, 10)\<close>: skip leading white space, take an optional sign, then the longest
      run of decimal digits; no digit at all is \<open>NaN\<close>\<close>
  "parseInt s =
     (let S = dropWhile is_ws s;
          sgn = (if S \<noteq> [] \<and> hd S = CHR ''-'' then - 1 else 1 :: int);
          S' = (if S \<noteq> [] \<and> (hd S = CHR ''+'' \<or> hd S = CHR ''-'') then tl S else S);
          Z = takeWhile is_digit S'
      in if Z = [] then None else Some (sgn * int (digits_value Z)))"

text \<open>
  A \<open>Set<number>\<close> keeps its elements in insertion order without duplicates; it is a
  list here, \<open>add\<close> appends an element that is not yet present and \<open>size\<close> is the length.
\<close>

definition Set_add :: "int \<Rightarrow> int list \<Rightarrow> int list" where
  "Set_add x s = (if x \<in> set s then s else s @ [x])"

definition Set_add_all :: "int list \<Rightarrow> int list \<Rightarrow> int list" where
  \<comment> \<open>\<open>xs.forEach(x => s.add(x))\<close>\<close>
  "Set_add_all xs s = foldl (\<lambda>acc x. Set_add x acc) s xs"

definition new_Set :: "int list \<Rightarrow> int list" where
  "new_Set xs = Set_add_all xs []"

section \<open>Pack range expander\<close>

definition Array_from_length :: "int \<Rightarrow> int \<Rightarrow> error + int list" where
  \<comment> \<open>\<open>Array.from({ length: n }, (_, i) => start + i)\<close>: a length above \<open>2 ^ 32 - 1\<close> is
      an invalid array length\<close>
  "Array_from_length n start =
     (if n > 4294967295 then Inl RangeError
      else Inr (map (\<lambda>i. start + int i) [0 ..< nat n]))"

definition expand_part :: "string \<Rightarrow> error + int list" where
  \<comment> \<open>the callback given to \<open>flatMap\<close> in \<open>expandPacks\<close>; a token with a dash splits into
      at least two pieces, so both indices are in range\<close>
  "expand_part part =
     (let trimmed = trim part in
      if CHR ''-'' \<in> set trimmed then
        (let pieces = map trim (split_on (CHR ''-'') trimmed);
             start = parseInt (pieces ! 0);
             end = parseInt (pieces ! 1)
         in case (start, end) of
              (Some a, Some b) \<Rightarrow> if a > b then Inr [] else Array_from_length (b - a + 1) a
            | _ \<Rightarrow> Inr [])
      else (case parseInt trimmed of None \<Rightarrow> Inr [] | Some num \<Rightarrow> Inr [num]))"

fun flatMap :: "('a \<Rightarrow> error + 'b list) \<Rightarrow> 'a list \<Rightarrow> error + 'b list" where
  \<comment> \<open>\<open>xs.flatMap(f)\<close> where the callback may throw: the first exception ends the loop\<close>
  "flatMap f [] = Inr []"
| "flatMap f (x # xs) =
     (case f x of
        Inl e \<Rightarrow> Inl e
      | Inr ys \<Rightarrow> (case flatMap f xs of Inl e \<Rightarrow> Inl e | Inr zs \<Rightarrow> Inr (ys @ zs)))"

definition expandPacks :: "string \<Rightarrow> error + int list" where
  "expandPacks packsString =
     (case flatMap expand_part (split_on (CHR '','') packsString) of
        Inl e \<Rightarrow> Inl e
      | Inr numbers \<Rightarrow> Inr (new_Set numbers))"


section \<open>Data model\<close>

datatype DownloadJobStatus = in_progress | completed | failed | partially_completed

record DownloadJob =
  id_j :: string
  host_j :: string
  port_j :: nat
  channel_j :: string
  bot_j :: string
  requestedPacks :: "int list"
  completedPacks :: "int list"
  failedPacks :: "int list"
  errors :: "(string \<times> string option) list"
  startTime :: string
  endTime :: "string option"
  status :: DownloadJobStatus

record InitiateDownloadToolInput =
  host :: string
  port :: nat
  channel :: string
  bot :: string
  packs :: string
  download_path :: string
  nickname :: string

record InitiateDownloadToolResponse =
  job_id_i :: string
  message_i :: string
  status_i :: DownloadJobStatus

record GetDownloadStatusToolResponse =
  job_id_r :: string
  status_r :: DownloadJobStatus
  completedPacks_r :: "int list"
  failedPacks_r :: "int list"
  progress_r :: string
  message_r :: string
  errors_r :: "(string \<times> string option) list"
  startTime_r :: "string option"
  endTime_r :: "string option"

text \<open>
  The connection object of the external XDCC client: the options it was constructed with
  and the channels it was asked to join. The client is not among the sources; its
  constructor and \<open>join\<close> are taken to record their arguments and not to throw, and
  \<open>download\<close> to return a promise that resolves or is rejected.
\<close>

record XDCC =
  xdcc_host :: string
  xdcc_port :: nat
  xdcc_nickname :: string
  xdcc_path :: string
  xdcc_joined :: "string list"

text \<open>
  Where the transfer of a job stands: no timer was set (acquiring the connection threw),
  the timer is set and \<open>download\<close> has not settled, the promise resolved and the three
  event handlers are registered, or the promise was rejected and the \<open>catch\<close> handler ran.
\<close>

datatype transfer = Unscheduled | Scheduled | Listening | Rejected

text \<open>
  The module state. A job is an object that the registry and the closures of its event
  handlers share, so the job objects live in a store indexed by reference, and the
  registry \<open>downloadJobs\<close> maps a job id to a reference. \<open>dirs\<close> are the paths that
  exist in the file system.
\<close>

record state =
  ircConnections :: "string \<rightharpoonup> XDCC"
  downloadJobs :: "string \<rightharpoonup> nat"
  objects :: "(DownloadJob \<times> transfer) list"
  dirs :: "string set"

text \<open>
  What a call of \<open>initiateDownload\<close> reads from its environment: the hexadecimal rendering
  of the eight random bytes, the clock, and whether the operating system lets the
  download directory be created.
\<close>

record env =
  random_hex :: string
  now :: string
  mkdir_ok :: bool

definition init_state :: "string set \<Rightarrow> state" where
  "init_state ds = \<lparr>ircConnections = Map.empty, downloadJobs = Map.empty, objects = [], dirs = ds\<rparr>"

section \<open>Number rendering\<close>

fun show_nat :: "nat \<Rightarrow> string" where
  \<comment> \<open>a template literal renders a non-negative integer in decimal\<close>
  "show_nat n =
     (if n < 10 then [''0123456789'' ! n]
      else show_nat (n div 10) @ [''0123456789'' ! (n mod 10)])"

declare show_nat.simps [simp del]

section \<open>Connection pool\<close>

definition existsSync :: "string \<Rightarrow> state \<Rightarrow> bool" where
  "existsSync p s = (p \<in> dirs s)"

definition mkdirSync :: "bool \<Rightarrow> string \<Rightarrow> state \<Rightarrow> error + state" where
  \<comment> \<open>\<open>fs.mkdirSync(p, { recursive: true })\<close>: throws when the system refuses\<close>
  "mkdirSync ok p s = (if ok then Inr (s\<lparr>dirs := insert p (dirs s)\<rparr>) else Inl (FsError p))"

definition connectionKey :: "string \<Rightarrow> nat \<Rightarrow> string" where
  "connectionKey h p = h @ '':'' @ show_nat p"

definition getXdccConnection ::
  "bool \<Rightarrow> string \<Rightarrow> nat \<Rightarrow> string \<Rightarrow> string \<Rightarrow> state \<Rightarrow> (error + XDCC) \<times> state" where
  "getXdccConnection ok h p nick downloadPath s =
     (case ircConnections s (connectionKey h p) of
        Some xdcc \<Rightarrow> (Inr xdcc, s)
      | None \<Rightarrow>
          (case (if \<not> existsSync downloadPath s then mkdirSync ok downloadPath s else Inr s) of
             Inl e \<Rightarrow> (Inl e, s)
           | Inr s1 \<Rightarrow>
               (let xdcc = \<lparr>xdcc_host = h, xdcc_port = p, xdcc_nickname = nick,
                            xdcc_path = downloadPath, xdcc_joined = []\<rparr>
                in (Inr xdcc,
                    s1\<lparr>ircConnections := (ircConnections s1)(connectionKey h p \<mapsto> xdcc)\<rparr>))))"

definition join :: "string \<Rightarrow> nat \<Rightarrow> string \<Rightarrow> state \<Rightarrow> state" where
  \<comment> \<open>\<open>xdcc.join(channel)\<close> on the pooled connection of the endpoint\<close>
  "join h p ch s =
     (case ircConnections s (connectionKey h p) of
        None \<Rightarrow> s
      | Some xdcc \<Rightarrow>
          s\<lparr>ircConnections :=
              (ircConnections s)(connectionKey h p \<mapsto> xdcc\<lparr>xdcc_joined := xdcc_joined xdcc @ [ch]\<rparr>)\<rparr>)"

section \<open>Job initiator\<close>

definition generateJobId :: "env \<Rightarrow> string" where
  "generateJobId e = ''job_'' @ random_hex e"

definition initiateDownload ::
  "env \<Rightarrow> InitiateDownloadToolInput \<Rightarrow> state \<Rightarrow> (error + InitiateDownloadToolResponse) \<times> state" where
  "initiateDownload e params s =
     (let h = trim (host params);
          ch = trim (channel params);
          b = trim (bot params);
          pk = trim (packs params);
          dp = trim (download_path params);
          nick = trim (nickname params)
      in case expandPacks pk of
           Inl err \<Rightarrow> (Inl err, s)
         | Inr requested \<Rightarrow>
             if length requested = 0
             then (Inl (McpError VALIDATION_ERROR ''No valid pack numbers provided''), s)
             else
               (let jobId = generateJobId e;
                    response = \<lparr>job_id_i = jobId,
                                message_i = ''Download started for '' @ show_nat (length requested)
                                              @ '' file(s)'',
                                status_i = in_progress\<rparr>;
                    job = \<lparr>id_j = jobId, host_j = h, port_j = port params, channel_j = ch,
                           bot_j = b, requestedPacks = requested, completedPacks = [],
                           failedPacks = [], errors = [], startTime = now e, endTime = None,
                           status = in_progress\<rparr>;
                    ref = length (objects s);
                    s1 = s\<lparr>objects := objects s @ [(job, Unscheduled)],
                           downloadJobs := (downloadJobs s)(jobId \<mapsto> ref)\<rparr>
                in case getXdccConnection (mkdir_ok e) h (port params) nick dp s1 of
                     (Inl err, s2) \<Rightarrow> (Inl err, s2)
                   | (Inr xdcc, s2) \<Rightarrow>
                       (let s3 = join h (port params) ch s2;
                            s4 = s3\<lparr>objects := (objects s3)[ref := (job, Scheduled)]\<rparr>
                        in (Inr response, s4))))"

section \<open>Progress aggregator\<close>

definition on_downloaded :: "int list \<Rightarrow> DownloadJob \<Rightarrow> DownloadJob" where
  \<comment> \<open>the \<open>downloaded\<close> handler; \<open>success\<close> is \<open>xdccJob.show().success.map(Number)\<close>,
      the list of the client taken as integers\<close>
  "on_downloaded success job =
     (let job1 = job\<lparr>completedPacks := Set_add_all success (completedPacks job)\<rparr>
      in if length (completedPacks job1) = length (requestedPacks job1)
         then job1\<lparr>status := completed\<rparr> else job1)"

definition on_error :: "string \<Rightarrow> string \<Rightarrow> DownloadJob \<Rightarrow> DownloadJob" where
  \<comment> \<open>the \<open>error\<close> handler; \<open>stack\<close> is \<open>new Error().stack\<close>\<close>
  "on_error errorMessage stack job =
     job\<lparr>errors := errors job @ [(errorMessage, Some stack)], status := failed\<rparr>"

definition on_start_failed :: "string \<Rightarrow> string option \<Rightarrow> DownloadJob \<Rightarrow> DownloadJob" where
  \<comment> \<open>the \<open>catch\<close> handler of the promise that \<open>xdcc.download\<close> returns\<close>
  "on_start_failed msg stack job =
     job\<lparr>errors := errors job @ [(msg, stack)], status := failed\<rparr>"

text \<open>
  What can happen to the module: a call of \<open>initiateDownload\<close>, the settling of the
  \<open>download\<close> promise of a job whose timer is set, and the three events of a transfer
  whose handlers are registered. An event for a job that is not in the matching phase
  cannot be delivered and leaves the state as it is.
\<close>

datatype action =
    Initiate env InitiateDownloadToolInput
  | Resolve nat
  | Reject nat string "string option"
  | Downloading nat
  | Downloaded nat "int list"
  | Error nat string string

definition in_phase :: "nat \<Rightarrow> transfer \<Rightarrow> state \<Rightarrow> bool" where
  "in_phase r ph s = (r < length (objects s) \<and> snd (objects s ! r) = ph)"

definition update_job :: "nat \<Rightarrow> (DownloadJob \<Rightarrow> DownloadJob) \<Rightarrow> transfer \<Rightarrow> state \<Rightarrow> state" where
  "update_job r f ph s = s\<lparr>objects := (objects s)[r := (f (fst (objects s ! r)), ph)]\<rparr>"

fun perform :: "action \<Rightarrow> state \<Rightarrow> state" where
  "perform (Initiate e params) s = snd (initiateDownload e params s)"
| "perform (Resolve r) s =
     (if in_phase r Scheduled s then update_job r (\<lambda>j. j) Listening s else s)"
| "perform (Reject r msg stack) s =
     (if in_phase r Scheduled s then update_job r (on_start_failed msg stack) Rejected s else s)"
| "perform (Downloading r) s = s"
| "perform (Downloaded r success) s =
     (if in_phase r Listening s then update_job r (on_downloaded success) Listening s else s)"
| "perform (Error r msg stack) s =
     (if in_phase r Listening s then update_job r (on_error msg stack) Listening s else s)"

fun exec :: "state \<Rightarrow> action list \<Rightarrow> state" where
  "exec s [] = s"
| "exec s (a # as) = exec (perform a s) as"

definition job_at :: "state \<Rightarrow> nat \<Rightarrow> DownloadJob" where
  "job_at s r = fst (objects s ! r)"


section \<open>Double-precision arithmetic of the progress computation\<close>

text \<open>
  \<open>Math.round((totalCompleted / totalRequested) * 100)\<close> divides and multiplies doubles.
  A set size is an integer below \<open>2 ^ 53\<close> and so is a double itself; the quotient and
  the product are the exact results rounded to the nearest double, ties to the even
  significand. Doubles are the rationals they denote; \<open>fl\<close> rounds a non-negative
  rational of the normal range to 53 significant bits.
\<close>

function bit_length :: "int \<Rightarrow> nat" where
  "bit_length n = (if n \<le> 0 then 0 else Suc (bit_length (n div 2)))"
  by pat_completeness auto
termination
  by (relation "measure nat") auto

declare bit_length.simps [simp del]

definition pow2 :: "int \<Rightarrow> rat" where
  "pow2 k = (if 0 \<le> k then 2 ^ nat k else 1 / 2 ^ nat (- k))"

definition binade :: "rat \<Rightarrow> int" where
  \<comment> \<open>the exponent \<open>e\<close> with \<open>2 ^ e \<le> q < 2 ^ (e + 1)\<close>, for positive \<open>q\<close>\<close>
  "binade q =
     (let a = fst (quotient_of q); b = snd (quotient_of q);
          k = int (bit_length a) - int (bit_length b)
      in if pow2 k \<le> q then k else k - 1)"

definition round_ties_even :: "rat \<Rightarrow> int" where
  "round_ties_even x =
     (let f = \<lfloor>x\<rfloor>; d = x - of_int f
      in if d < 1 / 2 then f else if 1 / 2 < d then f + 1 else if even f then f else f + 1)"

definition fl :: "rat \<Rightarrow> rat" where
  "fl q =
     (if q = 0 then 0
      else (let ulp = pow2 (binade q - 52) in of_int (round_ties_even (q / ulp)) * ulp))"

definition Math_round :: "rat \<Rightarrow> int" where
  \<comment> \<open>the nearest integer, a tie going up\<close>
  "Math_round x = \<lfloor>x + 1 / 2\<rfloor>"

section \<open>Status projector\<close>

definition progressPercent :: "nat \<Rightarrow> nat \<Rightarrow> int" where
  "progressPercent totalCompleted totalRequested =
     (if totalRequested > 0
      then Math_round (fl (fl (of_nat totalCompleted / of_nat totalRequested) * 100))
      else 0)"

definition status_message :: "DownloadJob \<Rightarrow> string" where
  \<comment> \<open>the \<open>switch\<close> on \<open>job.status\<close>\<close>
  "status_message job =
     (let totalRequested = length (requestedPacks job);
          totalCompleted = length (completedPacks job);
          percent = show_nat (nat (progressPercent totalCompleted totalRequested))
      in case status job of
           in_progress \<Rightarrow>
             ''Download in progress: '' @ show_nat totalCompleted @ ''/'' @ show_nat totalRequested
               @ '' packs completed ('' @ percent @ ''%)''
         | completed \<Rightarrow>
             ''Download completed: all '' @ show_nat totalRequested
               @ '' packs downloaded successfully''
         | failed \<Rightarrow>
             ''Download failed: '' @ show_nat (length (errors job)) @ '' errors occurred''
         | partially_completed \<Rightarrow>
             ''Download partially completed: '' @ show_nat totalCompleted @ ''/''
               @ show_nat totalRequested @ '' packs downloaded, ''
               @ show_nat (length (failedPacks job)) @ '' packs failed'')"

definition getDownloadStatus :: "string \<Rightarrow> state \<Rightarrow> GetDownloadStatusToolResponse" where
  "getDownloadStatus job_id s =
     (let response = \<lparr>job_id_r = job_id, status_r = in_progress, completedPacks_r = [],
                       failedPacks_r = [], progress_r = ''0%'',
                       message_r = ''Download job in progress'', errors_r = [],
                       startTime_r = None, endTime_r = None\<rparr>
      in case downloadJobs s job_id of
           None \<Rightarrow>
             response\<lparr>status_r := failed,
                       message_r := ''Download job with ID '' @ job_id @ '' not found''\<rparr>
         | Some ref \<Rightarrow>
             (let job = job_at s ref;
                  totalRequested = length (requestedPacks job);
                  totalCompleted = length (completedPacks job);
                  percent = show_nat (nat (progressPercent totalCompleted totalRequested))
              in response\<lparr>status_r := status job,
                           completedPacks_r := completedPacks job,
                           failedPacks_r := failedPacks job,
                           progress_r := percent @ ''% ('' @ show_nat totalCompleted @ ''/''
                                           @ show_nat totalRequested @ '')'',
                           message_r := status_message job,
                           errors_r := errors job,
                           startTime_r := Some (startTime job),
                           endTime_r := (if status job \<noteq> in_progress then endTime job else None)\<rparr>))"


section \<open>Auxiliary notions used in the statements\<close>

definition rtrim :: "string \<Rightarrow> string" where
  \<comment> \<open>the second half of \<open>trim\<close>: white space removed at the end\<close>
  "rtrim r = rev (dropWhile is_ws (rev r))"

definition numeric_prefix :: "string \<Rightarrow> bool" where
  \<comment> \<open>after leading white space and an optional sign the token goes on with a decimal digit\<close>
  "numeric_prefix t =
     (let u = dropWhile is_ws t;
          v = (if u \<noteq> [] \<and> (hd u = CHR ''+'' \<or> hd u = CHR ''-'') then tl u else u)
      in v \<noteq> [] \<and> is_digit (hd v))"

section \<open>Reachable states and their invariant\<close>

text \<open>
  The states the module can be in: it starts with empty maps, on any file system, and
  every action leads from a reachable state to a reachable state.
\<close>

inductive reachable :: "state \<Rightarrow> bool" where
  init: "reachable (init_state ds)"
| step: "reachable s \<Longrightarrow> reachable (perform a s)"

definition fresh_job :: "DownloadJob \<Rightarrow> bool" where
  \<comment> \<open>a job as \<open>initiateDownload\<close> creates it\<close>
  "fresh_job j =
     (completedPacks j = [] \<and> failedPacks j = [] \<and> errors j = [] \<and> endTime j = None \<and>
      status j = in_progress \<and> distinct (requestedPacks j) \<and> requestedPacks j \<noteq> [])"

definition job_inv :: "DownloadJob \<times> transfer \<Rightarrow> bool" where
  "job_inv jp =
     (failedPacks (fst jp) = [] \<and> endTime (fst jp) = None \<and>
      distinct (completedPacks (fst jp)) \<and> distinct (requestedPacks (fst jp)) \<and>
      requestedPacks (fst jp) \<noteq> [] \<and>
      status (fst jp) \<noteq> partially_completed \<and>
      ((snd jp = Unscheduled \<or> snd jp = Scheduled) \<longrightarrow>
         status (fst jp) = in_progress \<and> completedPacks (fst jp) = [] \<and> errors (fst jp) = []) \<and>
      (snd jp = Rejected \<longrightarrow> status (fst jp) = failed \<and> completedPacks (fst jp) = []))"

definition state_inv :: "state \<Rightarrow> bool" where
  "state_inv s =
     (list_all job_inv (objects s) \<and>
      (\<forall>i r. downloadJobs s i = Some r \<longrightarrow> r < length (objects s)))"

section \<open>A concrete run\<close>

definition example_env :: env where
  "example_env =
     \<lparr>random_hex = ''00ff00ff00ff00ff'', now = ''2025-01-01T00:00:00.000Z'', mkdir_ok = True\<rparr>"

definition example_params :: InitiateDownloadToolInput where
  "example_params =
     \<lparr>host = ''irc.example.com'', port = 6667, channel = ''#test'', bot = ''bot1'',
      packs = ''1-2'', download_path = ''./downloads/'', nickname = ''MCPUser''\<rparr>"

definition example_run :: "action list \<Rightarrow> state" where
  \<comment> \<open>one job for the packs 1 and 2 whose transfer has started, then the given actions\<close>
  "example_run as =
     exec (init_state {}) (Initiate example_env example_params # Resolve 0 # as)"

section \<open>The progress formula of the specification\<close>

definition spec_progressPercent :: "nat \<Rightarrow> nat \<Rightarrow> int" where
  \<comment> \<open>\<open>round(100 * |completedPacks| / |requestedPacks|)\<close>, and 0 for no requested pack,
      in exact arithmetic\<close>
  "spec_progressPercent c r = (if r = 0 then 0 else Math_round (100 * of_nat c / of_nat r))"

definition tie_run :: state where
  \<comment> \<open>a job for the packs 1 to 40 of which the packs 1 to 23 are completed\<close>
  "tie_run =
     exec (init_state {})
       [Initiate example_env (example_params\<lparr>packs := ''1-40''\<rparr>), Resolve 0,
        Downloaded 0 [1, 2, 3, 4, 5, 6, 7, 8, 9, 10, 11, 12, 13, 14, 15, 16, 17, 18, 19, 20,
                      21, 22, 23]]"

definition quarter_run :: state where
  \<comment> \<open>a job for the packs 1 to 4 of which pack 1 is completed\<close>
  "quarter_run =
     exec (init_state {})
       [Initiate example_env (example_params\<lparr>packs := ''1-4''\<rparr>), Resolve 0,
        Downloaded 0 [1]]"

section \<open>The pack range expander\<close>

lemmas expander_defs =
  expandPacks_def expand_part_def trim_def parseInt_def is_ws_def is_digit_def digit_val_def
  digits_value_def new_Set_def Set_add_all_def Set_add_def Array_from_length_def Let_def

lemma split_on_absent: "c \<notin> set s \<Longrightarrow> split_on c s = [s]"
  by (induction s) auto

lemma rtrim_split: "\<exists>w. r = rtrim r @ w \<and> (\<forall>c\<in>set w. is_ws c)"
proof -
  have "rev r = takeWhile is_ws (rev r) @ dropWhile is_ws (rev r)" by simp
  then have "rev (rev r) = rev (takeWhile is_ws (rev r) @ dropWhile is_ws (rev r))" by simp
  then have "r = rtrim r @ rev (takeWhile is_ws (rev r))"
    unfolding rtrim_def by (metis rev_append rev_rev_ident)
  moreover have "\<forall>c\<in>set (rev (takeWhile is_ws (rev r))). is_ws c"
    by (auto dest: set_takeWhileD)
  ultimately show ?thesis by blast
qed

lemma rtrim_set: "set (rtrim r) \<subseteq> set r"
  using rtrim_split [of r] by (metis Un_upper1 set_append)

lemma rtrim_hd: "rtrim r \<noteq> [] \<Longrightarrow> hd (rtrim r) = hd r"
  using rtrim_split [of r] by (metis hd_append2)

lemma trim_set: "set (trim t) \<subseteq> set t"
proof -
  have "set (trim t) \<subseteq> set (dropWhile is_ws t)"
    unfolding trim_def using rtrim_set [of "dropWhile is_ws t"] by (simp add: rtrim_def)
  also have "\<dots> \<subseteq> set t" by (auto dest: set_dropWhileD)
  finally show ?thesis .
qed

lemma digit_not_ws: "is_digit c \<Longrightarrow> \<not> is_ws c"
  by (auto simp: is_digit_def is_ws_def)

lemma trim_digits_append:
  assumes "ds \<noteq> []" "\<forall>c\<in>set ds. is_digit c"
  shows "trim (ds @ rest) = ds @ rtrim rest"
proof -
  from assms obtain d ds' where ds: "ds = d # ds'" by (cases ds) auto
  with assms have "\<not> is_ws d" by (simp add: digit_not_ws)
  then have front: "dropWhile is_ws (ds @ rest) = ds @ rest" by (simp add: ds)
  have "last ds \<in> set ds" using assms(1) by simp
  then have "\<not> is_ws (last ds)" using assms(2) digit_not_ws by blast
  then have rear: "dropWhile is_ws (rev ds) = rev ds" using assms(1)
    by (metis dropWhile_eq_self_iff hd_rev)
  have "dropWhile is_ws (rev rest @ rev ds) = dropWhile is_ws (rev rest) @ rev ds"
  proof (cases "\<forall>x\<in>set (rev rest). is_ws x")
    case True
    then have "dropWhile is_ws (rev rest @ rev ds) = dropWhile is_ws (rev ds)"
      by (intro dropWhile_append2) simp
    moreover have "dropWhile is_ws (rev rest) = []" using True by simp
    ultimately show ?thesis using rear by simp
  next
    case False
    then show ?thesis by (auto simp: dropWhile_append1)
  qed
  then show ?thesis by (simp add: trim_def front rtrim_def)
qed

lemma parseInt_digits_append:
  assumes "ds \<noteq> []" "\<forall>c\<in>set ds. is_digit c" "r = [] \<or> \<not> is_digit (hd r)"
  shows "parseInt (ds @ r) = Some (int (digits_value ds))"
proof -
  from assms obtain d ds' where ds: "ds = d # ds'" by (cases ds) auto
  with assms have d: "is_digit d" by simp
  then have nws: "\<not> is_ws d" by (simp add: digit_not_ws)
  have nsign: "d \<noteq> CHR ''-''" "d \<noteq> CHR ''+''" using d by (auto simp: is_digit_def)
  have tw: "takeWhile is_digit (ds @ r) = ds"
    using assms(2,3) by (cases r) (auto simp: takeWhile_append2 takeWhile_eq_all_conv)
  have dw: "dropWhile is_ws (ds @ r) = ds @ r" using nws by (simp add: ds)
  show ?thesis
    unfolding parseInt_def dw Let_def using nsign tw assms(1) by (simp add: ds)
qed

lemma takeWhile_Nil_iff: "takeWhile P xs = [] \<longleftrightarrow> xs = [] \<or> \<not> P (hd xs)"
  by (cases xs) auto

lemma parseInt_trim_None: "parseInt (trim t) = None \<longleftrightarrow> \<not> numeric_prefix t"
proof -
  define u where "u = dropWhile is_ws t"
  obtain w where w: "u = rtrim u @ w" "\<forall>c\<in>set w. is_ws c" using rtrim_split by blast
  have tr: "trim t = rtrim u" by (simp add: trim_def rtrim_def u_def)
  show ?thesis
  proof (cases "u = []")
    case True
    then have "trim t = []" by (simp add: tr rtrim_def)
    then show ?thesis using True by (simp add: parseInt_def numeric_prefix_def u_def [symmetric])
  next
    case False
    then have hdu: "\<not> is_ws (hd u)" unfolding u_def by (metis hd_dropWhile)
    have ne: "rtrim u \<noteq> []"
    proof
      assume "rtrim u = []"
      with w have "\<forall>c\<in>set u. is_ws c" by simp
      with False hdu show False by (cases u) auto
    qed
    then have hd_eq: "hd (rtrim u) = hd u" using w(1) by (metis hd_append2)
    have dw: "dropWhile is_ws (rtrim u) = rtrim u"
      using ne hdu hd_eq by (cases "rtrim u") auto
    define sg where "sg = (hd u = CHR ''+'' \<or> hd u = CHR ''-'')"
    define v' where "v' = (if sg then tl (rtrim u) else rtrim u)"
    define v where "v = (if sg then tl u else u)"
    have tlu: "tl u = tl (rtrim u) @ w" using w(1) ne by (metis tl_append2)
    have vv: "v = v' @ w"
    proof (cases sg)
      case True
      then have "v = tl u" "v' = tl (rtrim u)" by (simp_all add: v_def v'_def)
      then show ?thesis unfolding \<open>v = tl u\<close> \<open>v' = tl (rtrim u)\<close> using tlu by blast
    next
      case False
      then have "v = u" "v' = rtrim u" by (simp_all add: v_def v'_def)
      then show ?thesis unfolding \<open>v = u\<close> \<open>v' = rtrim u\<close> using w(1) by blast
    qed
    have "(v' = [] \<or> \<not> is_digit (hd v')) \<longleftrightarrow> (v = [] \<or> \<not> is_digit (hd v))"
    proof (cases "v' = []")
      case True
      then have "v = w" using vv by simp
      then have "v = [] \<or> is_ws (hd v)" using w(2) by (cases v) auto
      then show ?thesis using True digit_not_ws by blast
    next
      case False
      then show ?thesis using vv by simp
    qed
    then have "takeWhile is_digit v' = [] \<longleftrightarrow> \<not> (v \<noteq> [] \<and> is_digit (hd v))"
      by (simp add: takeWhile_Nil_iff)
    moreover have "parseInt (trim t) = None \<longleftrightarrow> takeWhile is_digit v' = []"
      unfolding parseInt_def tr dw Let_def v'_def sg_def using ne hd_eq by simp
    moreover have "numeric_prefix t \<longleftrightarrow> v \<noteq> [] \<and> is_digit (hd v)"
      unfolding numeric_prefix_def u_def [symmetric] Let_def v_def sg_def using False by simp
    ultimately show ?thesis by simp
  qed
qed

lemma expandPacks_prefix_token:
  assumes "ds \<noteq> []" and "\<forall>c\<in>set ds. is_digit c"
    and "rest = [] \<or> \<not> is_digit (hd rest)"
    and "CHR ''-'' \<notin> set rest" and "CHR '','' \<notin> set rest"
  shows "expandPacks (ds @ rest) = Inr [int (digits_value ds)]"
proof -
  have nd: "CHR ''-'' \<notin> set ds" "CHR '','' \<notin> set ds"
    using assms(2) by (auto simp: is_digit_def)
  have sp: "split_on (CHR '','') (ds @ rest) = [ds @ rest]"
    using nd assms(5) by (simp add: split_on_absent)
  have tr: "trim (ds @ rest) = ds @ rtrim rest"
    using assms(1,2) by (rule trim_digits_append)
  have nodash: "CHR ''-'' \<notin> set (ds @ rtrim rest)"
    using nd assms(4) rtrim_set [of rest] by auto
  have "rtrim rest = [] \<or> \<not> is_digit (hd (rtrim rest))"
    using assms(3) rtrim_hd [of rest] by (cases "rtrim rest = []") (auto simp: rtrim_def)
  then have pi: "parseInt (ds @ rtrim rest) = Some (int (digits_value ds))"
    using assms(1,2) by (intro parseInt_digits_append) auto
  have "expand_part (ds @ rest) = Inr [int (digits_value ds)]"
    unfolding expand_part_def tr Let_def using nodash pi by simp
  then show ?thesis
    by (simp add: expandPacks_def sp new_Set_def Set_add_all_def Set_add_def)
qed

lemma expandPacks_dropped_iff:
  assumes "CHR ''-'' \<notin> set t" and "CHR '','' \<notin> set t"
  shows "expandPacks t = Inr [] \<longleftrightarrow> \<not> numeric_prefix t"
proof -
  have sp: "split_on (CHR '','') t = [t]" using assms(2) by (simp add: split_on_absent)
  have nd: "CHR ''-'' \<notin> set (trim t)" using assms(1) trim_set by blast
  have ep: "expand_part t = (case parseInt (trim t) of None \<Rightarrow> Inr [] | Some num \<Rightarrow> Inr [num])"
    unfolding expand_part_def Let_def using nd by simp
  show ?thesis
    unfolding expandPacks_def sp using parseInt_trim_None [of t]
    by (auto simp: ep new_Set_def Set_add_all_def Set_add_def split: option.splits)
qed

text \<open>
  Claim C4. The expander maps \<open>1-3,5,7-9\<close> to the packs 1, 2, 3, 5, 7, 8, 9 and
  \<open>2-1,abc,4\<close> to the single pack 4: the range whose start exceeds its end and the
  token without a number each contribute nothing. The expansion of \<open>abc\<close> is empty, and
  initiating a download with these packs fails with the validation error and leaves
  the state as it was.
\<close>

theorem expandPacks_examples:
  "expandPacks ''1-3,5,7-9'' = Inr [1, 2, 3, 5, 7, 8, 9] \<and>
   expandPacks ''2-1,abc,4'' = Inr [4] \<and>
   expand_part ''2-1'' = Inr [] \<and>
   expand_part ''abc'' = Inr [] \<and>
   expandPacks ''abc'' = Inr [] \<and>
   initiateDownload e (params\<lparr>packs := ''abc''\<rparr>) s =
     (Inl (McpError VALIDATION_ERROR ''No valid pack numbers provided''), s)"
proof -
  have 1: "expandPacks ''1-3,5,7-9'' = Inr [1, 2, 3, 5, 7, 8, 9]"
    by (simp add: expander_defs upt_rec)
  have 2: "expandPacks ''2-1,abc,4'' = Inr [4]" by (simp add: expander_defs)
  have 3: "expand_part ''2-1'' = Inr []" by (simp add: expander_defs)
  have 4: "expand_part ''abc'' = Inr []" by (simp add: expander_defs)
  have 5: "expandPacks ''abc'' = Inr []" by (simp add: expander_defs)
  have t: "trim ''abc'' = ''abc''" by (simp add: expander_defs)
  have 6: "initiateDownload e (params\<lparr>packs := ''abc''\<rparr>) s =
      (Inl (McpError VALIDATION_ERROR ''No valid pack numbers provided''), s)"
    by (simp add: initiateDownload_def Let_def t 5)
  from 1 2 3 4 5 6 show ?thesis by blast
qed

text \<open>
  Claim C10. A token without dash and comma that begins with decimal digits and goes on
  with something that is not a digit is not dropped: the expander yields the integer that
  the digits denote (a safe integer, so that the double is exact). A token without dash
  and comma is dropped exactly when no digit follows its leading white space and
  optional sign. For example \<open>4abc\<close> expands to the pack 4.
\<close>

theorem expandPacks_numeric_prefix:
  assumes "ds \<noteq> []" and "\<forall>c\<in>set ds. is_digit c"
    and "rest = [] \<or> \<not> is_digit (hd rest)"
    and "CHR ''-'' \<notin> set rest" and "CHR '','' \<notin> set rest"
    and "digits_value ds \<le> 2 ^ 53"
  shows "expandPacks (ds @ rest) = Inr [int (digits_value ds)] \<and>
         (\<forall>t. CHR ''-'' \<notin> set t \<and> CHR '','' \<notin> set t \<longrightarrow>
              (expandPacks t = Inr [] \<longleftrightarrow> \<not> numeric_prefix t)) \<and>
         expandPacks ''4abc'' = Inr [4]"
proof -
  have "expandPacks (''4'' @ ''abc'') = Inr [int (digits_value ''4'')]"
    by (rule expandPacks_prefix_token) (simp_all add: is_digit_def)
  then have "expandPacks ''4abc'' = Inr [4]"
    by (simp add: digits_value_def digit_val_def)
  then show ?thesis
    using expandPacks_prefix_token [OF assms(1-5)] expandPacks_dropped_iff by blast
qed

theorem expandPacks_numeric_prefix_witness:
  "''12'' \<noteq> [] \<and> list_all is_digit ''12'' \<and> \<not> is_digit (hd ''x 7'') \<and>
   CHR ''-'' \<notin> set ''x 7'' \<and> CHR '','' \<notin> set ''x 7'' \<and> digits_value ''12'' \<le> 2 ^ 53 \<and>
   expandPacks ''12x 7'' = Inr [12] \<and>
   (expandPacks ''+x'' = Inr [] \<longleftrightarrow> \<not> numeric_prefix ''+x'')"
proof -
  have h: "''12'' \<noteq> []" "\<forall>c\<in>set ''12''. is_digit c" "''x 7'' = [] \<or> \<not> is_digit (hd ''x 7'')"
    "CHR ''-'' \<notin> set ''x 7''" "CHR '','' \<notin> set ''x 7''" "digits_value ''12'' \<le> 2 ^ 53"
    by (simp_all add: is_digit_def digits_value_def digit_val_def)
  have v: "int (digits_value ''12'') = 12" by (simp add: digits_value_def digit_val_def)
  from expandPacks_numeric_prefix [OF h] have
    "expandPacks (''12'' @ ''x 7'') = Inr [int (digits_value ''12'')]"
    and "CHR ''-'' \<notin> set ''+x'' \<and> CHR '','' \<notin> set ''+x'' \<longrightarrow>
           (expandPacks ''+x'' = Inr [] \<longleftrightarrow> \<not> numeric_prefix ''+x'')"
    by blast+
  then show ?thesis using h v by simp
qed

section \<open>Invariants of the job store\<close>

lemma set_Set_add_all: "set (Set_add_all xs s) = set s \<union> set xs"
  unfolding Set_add_all_def by (induction xs arbitrary: s) (auto simp: Set_add_def)

lemma distinct_Set_add_all: "distinct s \<Longrightarrow> distinct (Set_add_all xs s)"
  unfolding Set_add_all_def by (induction xs arbitrary: s) (auto simp: Set_add_def)

lemma distinct_expandPacks: "expandPacks t = Inr xs \<Longrightarrow> distinct xs"
  by (auto simp: expandPacks_def new_Set_def distinct_Set_add_all split: sum.splits)

lemma getXdcc_jobs:
  "objects (snd (getXdccConnection ok h p n d s)) = objects s \<and>
   downloadJobs (snd (getXdccConnection ok h p n d s)) = downloadJobs s"
  by (simp add: getXdccConnection_def mkdirSync_def existsSync_def Let_def
      split: option.splits sum.splits)

lemma join_jobs: "objects (join h p ch s) = objects s \<and> downloadJobs (join h p ch s) = downloadJobs s"
  by (simp add: join_def split: option.splits)

lemma initiate_shape:
  "(objects (snd (initiateDownload e p s)) = objects s \<and>
    downloadJobs (snd (initiateDownload e p s)) = downloadJobs s) \<or>
   (\<exists>j ph. objects (snd (initiateDownload e p s)) = objects s @ [(j, ph)] \<and>
      downloadJobs (snd (initiateDownload e p s)) = (downloadJobs s)(id_j j \<mapsto> length (objects s)) \<and>
      fresh_job j \<and> (ph = Unscheduled \<or> ph = Scheduled))"
proof (cases "expandPacks (trim (packs p))")
  case (Inl err)
  then show ?thesis by (simp add: initiateDownload_def Let_def)
next
  case (Inr requested)
  show ?thesis
  proof (cases "requested = []")
    case True
    with Inr show ?thesis by (simp add: initiateDownload_def Let_def)
  next
    case False
    define job where "job = \<lparr>id_j = generateJobId e, host_j = trim (host p), port_j = port p,
        channel_j = trim (channel p), bot_j = trim (bot p), requestedPacks = requested,
        completedPacks = [], failedPacks = [], errors = [], startTime = now e, endTime = None,
        status = in_progress\<rparr>"
    define s1 where "s1 = s\<lparr>objects := objects s @ [(job, Unscheduled)],
        downloadJobs := (downloadJobs s)(generateJobId e \<mapsto> length (objects s))\<rparr>"
    define res where "res = getXdccConnection (mkdir_ok e) (trim (host p)) (port p)
        (trim (nickname p)) (trim (download_path p)) s1"
    have fj: "fresh_job job"
      using False distinct_expandPacks [OF Inr] by (simp add: fresh_job_def job_def)
    have o2: "objects (snd res) = objects s @ [(job, Unscheduled)]"
      and d2: "downloadJobs (snd res) = (downloadJobs s)(id_j job \<mapsto> length (objects s))"
      using getXdcc_jobs unfolding res_def by (simp_all add: s1_def job_def)
    have unf: "initiateDownload e p s =
      (case res of (Inl err, s2) \<Rightarrow> (Inl err, s2)
       | (Inr xdcc, s2) \<Rightarrow>
          (Inr \<lparr>job_id_i = generateJobId e,
                message_i = ''Download started for '' @ show_nat (length requested) @ '' file(s)'',
                status_i = in_progress\<rparr>,
           (join (trim (host p)) (port p) (trim (channel p)) s2)
             \<lparr>objects := (objects (join (trim (host p)) (port p) (trim (channel p)) s2))
                 [length (objects s) := (job, Scheduled)]\<rparr>))"
      unfolding initiateDownload_def Let_def res_def s1_def job_def using Inr False by simp
    show ?thesis
    proof (cases res)
      case (Pair r s2)
      then have s2: "objects s2 = objects s @ [(job, Unscheduled)]"
        "downloadJobs s2 = (downloadJobs s)(id_j job \<mapsto> length (objects s))"
        using o2 d2 by simp_all
      show ?thesis
      proof (cases r)
        case (Inl err)
        then show ?thesis using Pair s2 fj by (auto simp: unf)
      next
        case (Inr xdcc)
        then show ?thesis using Pair s2 fj by (auto simp: unf join_jobs)
      qed
    qed
  qed
qed


lemmas machine_defs =
  initiateDownload_def getXdccConnection_def existsSync_def mkdirSync_def join_def
  connectionKey_def generateJobId_def init_state_def in_phase_def update_job_def
  on_downloaded_def on_error_def on_start_failed_def job_at_def example_env_def example_params_def

lemma list_all_update: "list_all P xs \<Longrightarrow> P v \<Longrightarrow> list_all P (xs[r := v])"
  by (metis insertE list_all_iff set_update_subset_insert subsetD)

lemma list_all_nth: "list_all P xs \<Longrightarrow> r < length xs \<Longrightarrow> P (xs ! r)"
  by (simp add: list_all_length)

lemma state_inv_initiate:
  assumes "state_inv s"
  shows "state_inv (snd (initiateDownload e p s))"
proof -
  from initiate_shape [of e p s] show ?thesis
  proof
    assume "objects (snd (initiateDownload e p s)) = objects s \<and>
      downloadJobs (snd (initiateDownload e p s)) = downloadJobs s"
    with assms show ?thesis by (simp add: state_inv_def)
  next
    assume "\<exists>j ph. objects (snd (initiateDownload e p s)) = objects s @ [(j, ph)] \<and>
      downloadJobs (snd (initiateDownload e p s)) = (downloadJobs s)(id_j j \<mapsto> length (objects s)) \<and>
      fresh_job j \<and> (ph = Unscheduled \<or> ph = Scheduled)"
    then obtain j ph where
      o: "objects (snd (initiateDownload e p s)) = objects s @ [(j, ph)]" and
      d: "downloadJobs (snd (initiateDownload e p s)) = (downloadJobs s)(id_j j \<mapsto> length (objects s))" and
      f: "fresh_job j" and ph: "ph = Unscheduled \<or> ph = Scheduled"
      by blast
    have "job_inv (j, ph)" using f ph by (auto simp: job_inv_def fresh_job_def)
    then have "list_all job_inv (objects s @ [(j, ph)])"
      using assms by (simp add: state_inv_def)
    moreover have "\<forall>i r. ((downloadJobs s)(id_j j \<mapsto> length (objects s))) i = Some r \<longrightarrow>
        r < length (objects s @ [(j, ph)])"
      using assms by (auto simp: state_inv_def less_Suc_eq)
    ultimately show ?thesis unfolding state_inv_def o d by blast
  qed
qed

lemma state_inv_update_job:
  assumes "state_inv s" and "job_inv (f (fst (objects s ! r)), ph)"
  shows "state_inv (update_job r f ph s)"
  using assms by (simp add: state_inv_def update_job_def list_all_update)

lemma state_inv_perform:
  assumes "state_inv s"
  shows "state_inv (perform a s)"
proof (cases a)
  case (Initiate e p)
  then show ?thesis using assms by (simp add: state_inv_initiate)
next
  case (Resolve r)
  show ?thesis
  proof (cases "in_phase r Scheduled s")
    case True
    then have "job_inv (objects s ! r)" using assms
      by (simp add: state_inv_def in_phase_def list_all_nth)
    then have "job_inv (fst (objects s ! r), Listening)"
      using True by (simp add: job_inv_def in_phase_def)
    then show ?thesis using Resolve True assms by (simp add: state_inv_update_job)
  next
    case False
    then show ?thesis using Resolve assms by simp
  qed
next
  case (Reject r msg stack)
  show ?thesis
  proof (cases "in_phase r Scheduled s")
    case True
    then have "job_inv (objects s ! r)" using assms
      by (simp add: state_inv_def in_phase_def list_all_nth)
    then have "job_inv (on_start_failed msg stack (fst (objects s ! r)), Rejected)"
      using True by (simp add: job_inv_def in_phase_def on_start_failed_def)
    then show ?thesis using Reject True assms by (simp add: state_inv_update_job)
  next
    case False
    then show ?thesis using Reject assms by simp
  qed
next
  case (Downloading r)
  then show ?thesis using assms by simp
next
  case (Downloaded r success)
  show ?thesis
  proof (cases "in_phase r Listening s")
    case True
    then have "job_inv (objects s ! r)" using assms
      by (simp add: state_inv_def in_phase_def list_all_nth)
    then have "job_inv (on_downloaded success (fst (objects s ! r)), Listening)"
      by (simp add: job_inv_def on_downloaded_def Let_def distinct_Set_add_all)
    then show ?thesis using Downloaded True assms by (simp add: state_inv_update_job)
  next
    case False
    then show ?thesis using Downloaded assms by simp
  qed
next
  case (Error r msg stack)
  show ?thesis
  proof (cases "in_phase r Listening s")
    case True
    then have "job_inv (objects s ! r)" using assms
      by (simp add: state_inv_def in_phase_def list_all_nth)
    then have "job_inv (on_error msg stack (fst (objects s ! r)), Listening)"
      by (simp add: job_inv_def on_error_def)
    then show ?thesis using Error True assms by (simp add: state_inv_update_job)
  next
    case False
    then show ?thesis using Error assms by simp
  qed
qed

lemma reachable_inv: "reachable s \<Longrightarrow> state_inv s"
  by (induction rule: reachable.induct)
    (simp_all add: state_inv_perform, simp add: state_inv_def init_state_def)

lemma reachable_exec: "reachable s \<Longrightarrow> reachable (exec s as)"
  by (induction as arbitrary: s) (auto intro: reachable.step)

lemma reachable_job_inv: "reachable s \<Longrightarrow> r < length (objects s) \<Longrightarrow> job_inv (objects s ! r)"
  using reachable_inv by (simp add: state_inv_def list_all_nth)

text \<open>What one action does to a job object that exists already.\<close>

lemma job_at_update_job:
  "r < length (objects s) \<Longrightarrow>
   job_at (update_job r' f ph s) r = (if r' = r then f (job_at s r) else job_at s r)"
  by (simp add: job_at_def update_job_def nth_list_update)

lemma job_at_initiate:
  assumes "r < length (objects s)"
  shows "job_at (snd (initiateDownload e p s)) r = job_at s r"
  using initiate_shape [of e p s] assms by (auto simp: job_at_def nth_append)

lemma perform_job:
  assumes "r < length (objects s)"
  shows "job_at (perform a s) r = job_at s r \<or>
    (\<exists>msg stack. in_phase r Scheduled s \<and> job_at (perform a s) r = on_start_failed msg stack (job_at s r)) \<or>
    (\<exists>success. in_phase r Listening s \<and> job_at (perform a s) r = on_downloaded success (job_at s r)) \<or>
    (\<exists>msg stack. in_phase r Listening s \<and> job_at (perform a s) r = on_error msg stack (job_at s r))"
proof (cases a)
  case (Initiate e p)
  then show ?thesis using assms by (simp add: job_at_initiate)
next
  case (Resolve r')
  then show ?thesis using assms by (simp add: job_at_update_job)
next
  case (Reject r' msg stack)
  then show ?thesis using assms by (auto simp: job_at_update_job)
next
  case (Downloading r')
  then show ?thesis by simp
next
  case (Downloaded r' success)
  then show ?thesis using assms by (auto simp: job_at_update_job)
next
  case (Error r' msg stack)
  then show ?thesis using assms by (auto simp: job_at_update_job)
qed

lemmas example_defs = example_run_def machine_defs expander_defs upt_rec

lemma reachable_example_run: "reachable (example_run as)"
  unfolding example_run_def by (rule reachable_exec) (rule reachable.init)



section \<open>Terminal status, pack sets and failed packs\<close>

text \<open>
  Claim C1, as stated, fails: the handlers do not look at the status. A pack error that
  arrives after the job completed sets the status to \<open>failed\<close>, and a pack completion
  that arrives after a pack error sets it to \<open>completed\<close> once the sizes agree.
\<close>

theorem terminal_status_counterexample:
  "status (job_at (example_run [Downloaded 0 [1, 2]]) 0) = completed \<and>
   status (job_at (example_run [Downloaded 0 [1, 2], Error 0 ''timeout'' ''Error: at handler'']) 0) = failed \<and>
   status (job_at (example_run [Error 0 ''timeout'' ''Error: at handler'']) 0) = failed \<and>
   status (job_at (example_run [Error 0 ''timeout'' ''Error: at handler'', Downloaded 0 [1, 2]]) 0) = completed"
  by (simp add: example_defs)

text \<open>
  Claim C1, amended. Once the status of a job has left \<open>in_progress\<close>, no action brings
  it to \<open>in_progress\<close> again or changes \<open>endTime\<close>, and the start failure cannot be
  delivered any more. Late pack events are not discarded: a pack error still appends its
  message to \<open>errors\<close> and sets the status to \<open>failed\<close>, and a pack completion still
  adds the reported list to \<open>completedPacks\<close> and sets the status to \<open>completed\<close> when
  the sizes of \<open>completedPacks\<close> and \<open>requestedPacks\<close> then agree.
\<close>

theorem terminal_status_amended:
  assumes "reachable s" and "r < length (objects s)" and "status (job_at s r) \<noteq> in_progress"
  shows "status (job_at (perform a s) r) \<noteq> in_progress \<and>
         endTime (job_at (perform a s) r) = endTime (job_at s r) \<and>
         \<not> in_phase r Scheduled s \<and>
         (in_phase r Listening s \<longrightarrow>
            status (job_at (perform (Error r msg stack) s) r) = failed \<and>
            errors (job_at (perform (Error r msg stack) s) r) =
              errors (job_at s r) @ [(msg, Some stack)] \<and>
            completedPacks (job_at (perform (Downloaded r success) s) r) =
              Set_add_all success (completedPacks (job_at s r)) \<and>
            status (job_at (perform (Downloaded r success) s) r) =
              (if length (Set_add_all success (completedPacks (job_at s r))) =
                  length (requestedPacks (job_at s r))
               then completed else status (job_at s r)))"
proof -
  have inv: "job_inv (objects s ! r)" using assms(1,2) by (rule reachable_job_inv)
  have 1: "status (job_at (perform a s) r) \<noteq> in_progress"
    using perform_job [OF assms(2), of a] assms(3)
    by (auto simp: on_start_failed_def on_downloaded_def on_error_def Let_def split: if_splits)
  have 2: "endTime (job_at (perform a s) r) = endTime (job_at s r)"
    using perform_job [OF assms(2), of a]
    by (auto simp: on_start_failed_def on_downloaded_def on_error_def Let_def)
  have 3: "\<not> in_phase r Scheduled s"
    using inv assms(3) by (auto simp: job_inv_def in_phase_def job_at_def)
  have 4: "status (job_at (perform (Error r msg stack) s) r) = failed" if "in_phase r Listening s"
    using that assms(2) by (simp add: job_at_update_job on_error_def)
  have 5: "status (job_at (perform (Downloaded r success) s) r) =
      (if length (Set_add_all success (completedPacks (job_at s r))) =
          length (requestedPacks (job_at s r))
       then completed else status (job_at s r))" if "in_phase r Listening s"
    using that assms(2) by (simp add: job_at_update_job on_downloaded_def Let_def)
  have 6: "errors (job_at (perform (Error r msg stack) s) r) =
      errors (job_at s r) @ [(msg, Some stack)]" if "in_phase r Listening s"
    using that assms(2) by (simp add: job_at_update_job on_error_def)
  have 7: "completedPacks (job_at (perform (Downloaded r success) s) r) =
      Set_add_all success (completedPacks (job_at s r))" if "in_phase r Listening s"
    using that assms(2) by (simp add: job_at_update_job on_downloaded_def Let_def)
  from 1 2 3 4 5 6 7 show ?thesis by blast
qed

theorem terminal_status_amended_witness:
  "reachable (example_run [Downloaded 0 [1, 2]]) \<and>
   0 < length (objects (example_run [Downloaded 0 [1, 2]])) \<and>
   status (job_at (example_run [Downloaded 0 [1, 2]]) 0) \<noteq> in_progress \<and>
   in_phase 0 Listening (example_run [Downloaded 0 [1, 2]]) \<and>
   status (job_at (perform (Error 0 ''timeout'' ''Error: at handler'')
     (example_run [Downloaded 0 [1, 2]])) 0) = failed \<and>
   errors (job_at (perform (Error 0 ''timeout'' ''Error: at handler'')
     (example_run [Downloaded 0 [1, 2]])) 0) = [(''timeout'', Some ''Error: at handler'')] \<and>
   completedPacks (job_at (perform (Downloaded 0 [3])
     (example_run [Downloaded 0 [1, 2]])) 0) = [1, 2, 3] \<and>
   endTime (job_at (perform (Error 0 ''timeout'' ''Error: at handler'')
     (example_run [Downloaded 0 [1, 2]])) 0) =
     endTime (job_at (example_run [Downloaded 0 [1, 2]]) 0)"
proof -
  have h: "0 < length (objects (example_run [Downloaded 0 [1, 2]]))"
    "status (job_at (example_run [Downloaded 0 [1, 2]]) 0) \<noteq> in_progress"
    by (simp_all add: example_defs)
  have l: "in_phase 0 Listening (example_run [Downloaded 0 [1, 2]])"
    and e: "errors (job_at (example_run [Downloaded 0 [1, 2]]) 0) = []"
    and c: "completedPacks (job_at (example_run [Downloaded 0 [1, 2]]) 0) = [1, 2]"
    by (simp_all add: example_defs)
  have a: "Set_add_all [3] [1, 2] = [1, 2, 3]"
    by (simp add: Set_add_all_def Set_add_def)
  note T = terminal_status_amended [OF reachable_example_run h,
      where a = "Error 0 ''timeout'' ''Error: at handler''" and msg = "''timeout''"
        and stack = "''Error: at handler''" and success = "[3]"]
  have t1: "status (job_at (perform (Error 0 ''timeout'' ''Error: at handler'')
      (example_run [Downloaded 0 [1, 2]])) 0) = failed"
    and t2: "errors (job_at (perform (Error 0 ''timeout'' ''Error: at handler'')
      (example_run [Downloaded 0 [1, 2]])) 0) =
      errors (job_at (example_run [Downloaded 0 [1, 2]]) 0) @ [(''timeout'', Some ''Error: at handler'')]"
    and t3: "completedPacks (job_at (perform (Downloaded 0 [3])
      (example_run [Downloaded 0 [1, 2]])) 0) =
      Set_add_all [3] (completedPacks (job_at (example_run [Downloaded 0 [1, 2]]) 0))"
    and t4: "endTime (job_at (perform (Error 0 ''timeout'' ''Error: at handler'')
      (example_run [Downloaded 0 [1, 2]])) 0) =
      endTime (job_at (example_run [Downloaded 0 [1, 2]]) 0)"
    using T l by blast+
  from t2 e have t2': "errors (job_at (perform (Error 0 ''timeout'' ''Error: at handler'')
      (example_run [Downloaded 0 [1, 2]])) 0) = [(''timeout'', Some ''Error: at handler'')]"
    by simp
  from t3 c a have t3': "completedPacks (job_at (perform (Downloaded 0 [3])
      (example_run [Downloaded 0 [1, 2]])) 0) = [1, 2, 3]"
    by simp
  from reachable_example_run h l t1 t2' t3' t4 show ?thesis by blast
qed

text \<open>
  Claim C2, as stated, fails: the \<open>downloaded\<close> handler adds every number of the
  reported success list to \<open>completedPacks\<close> and takes no intersection with
  \<open>requestedPacks\<close>. The list is the one the client keeps for the whole session, which
  can hold packs that no part of this job requested. A job for the packs 1 and 2 that is
  told of the successes 7 and 1 holds the completed packs 7 and 1 and counts as completed.
\<close>

theorem pack_sets_counterexample:
  "requestedPacks (job_at (example_run [Downloaded 0 [7, 1]]) 0) = [1, 2] \<and>
   completedPacks (job_at (example_run [Downloaded 0 [7, 1]]) 0) = [7, 1] \<and>
   status (job_at (example_run [Downloaded 0 [7, 1]]) 0) = completed \<and>
   \<not> set (completedPacks (job_at (example_run [Downloaded 0 [7, 1]]) 0))
       \<union> set (failedPacks (job_at (example_run [Downloaded 0 [7, 1]]) 0))
     \<subseteq> set (requestedPacks (job_at (example_run [Downloaded 0 [7, 1]]) 0))"
  by (simp add: example_defs)

text \<open>
  Claim C2, amended. \<open>completedPacks\<close> and \<open>failedPacks\<close> of a job only grow, they are
  disjoint, and \<open>requestedPacks\<close> never changes. A delivered item-completed event makes
  \<open>completedPacks\<close> the union of its old elements and the reported list, so it stays
  inside \<open>requestedPacks\<close> where it was inside and every reported number is requested.
\<close>

theorem pack_sets_amended:
  assumes "reachable s" and "r < length (objects s)"
  shows "set (completedPacks (job_at s r)) \<subseteq> set (completedPacks (job_at (perform a s) r)) \<and>
         set (failedPacks (job_at s r)) \<subseteq> set (failedPacks (job_at (perform a s) r)) \<and>
         set (completedPacks (job_at s r)) \<inter> set (failedPacks (job_at s r)) = {} \<and>
         requestedPacks (job_at (perform a s) r) = requestedPacks (job_at s r) \<and>
         (in_phase r Listening s \<longrightarrow>
            set (completedPacks (job_at (perform (Downloaded r success) s) r)) =
              set (completedPacks (job_at s r)) \<union> set success \<and>
            (set (completedPacks (job_at s r)) \<subseteq> set (requestedPacks (job_at s r)) \<and>
             set success \<subseteq> set (requestedPacks (job_at s r)) \<longrightarrow>
               set (completedPacks (job_at (perform (Downloaded r success) s) r))
                 \<subseteq> set (requestedPacks (job_at (perform (Downloaded r success) s) r))))"
proof -
  have inv: "job_inv (objects s ! r)" using assms by (rule reachable_job_inv)
  have 1: "set (completedPacks (job_at s r)) \<subseteq> set (completedPacks (job_at (perform a s) r))"
    using perform_job [OF assms(2), of a]
    by (auto simp: on_start_failed_def on_downloaded_def on_error_def Let_def set_Set_add_all)
  have 2: "set (failedPacks (job_at s r)) \<subseteq> set (failedPacks (job_at (perform a s) r))"
    using perform_job [OF assms(2), of a]
    by (auto simp: on_start_failed_def on_downloaded_def on_error_def Let_def)
  have 3: "set (completedPacks (job_at s r)) \<inter> set (failedPacks (job_at s r)) = {}"
    using inv by (simp add: job_inv_def job_at_def)
  have 4: "requestedPacks (job_at (perform a s) r) = requestedPacks (job_at s r)"
    using perform_job [OF assms(2), of a]
    by (auto simp: on_start_failed_def on_downloaded_def on_error_def Let_def)
  have 5: "set (completedPacks (job_at (perform (Downloaded r success) s) r)) =
      set (completedPacks (job_at s r)) \<union> set success" if "in_phase r Listening s"
    using that assms(2) by (simp add: job_at_update_job on_downloaded_def Let_def set_Set_add_all)
  have 6: "requestedPacks (job_at (perform (Downloaded r success) s) r) =
      requestedPacks (job_at s r)"
    using perform_job [OF assms(2), of "Downloaded r success"]
    by (auto simp: on_start_failed_def on_downloaded_def on_error_def Let_def)
  from 1 2 3 4 5 6 show ?thesis by auto
qed

theorem pack_sets_amended_witness:
  "reachable (example_run [Downloaded 0 [1]]) \<and>
   0 < length (objects (example_run [Downloaded 0 [1]])) \<and>
   in_phase 0 Listening (example_run [Downloaded 0 [1]]) \<and>
   set (completedPacks (job_at (example_run [Downloaded 0 [1]]) 0))
     \<subseteq> set (completedPacks (job_at (perform (Downloaded 0 [1, 2]) (example_run [Downloaded 0 [1]])) 0)) \<and>
   set (completedPacks (job_at (perform (Downloaded 0 [1, 2]) (example_run [Downloaded 0 [1]])) 0)) = {1, 2}"
proof -
  have h: "0 < length (objects (example_run [Downloaded 0 [1]]))"
    "in_phase 0 Listening (example_run [Downloaded 0 [1]])"
    "set (completedPacks (job_at (example_run [Downloaded 0 [1]]) 0)) = {1}"
    by (simp_all add: example_defs)
  from pack_sets_amended [OF reachable_example_run h(1), where a = "Downloaded 0 [1, 2]"
      and success = "[1, 2]"]
  show ?thesis using h reachable_example_run by auto
qed

text \<open>
  Claim C3 against the code: no handler assigns \<open>endTime\<close>. After the last pack of a job
  completed, and after a pack error, the status has left \<open>in_progress\<close> and \<open>endTime\<close>
  is still unset; the status snapshot, which copies \<open>endTime\<close> for such a job, reports
  none.
\<close>

theorem endTime_never_set:
  "status (job_at (example_run [Downloaded 0 [1, 2]]) 0) = completed \<and>
   endTime (job_at (example_run [Downloaded 0 [1, 2]]) 0) = None \<and>
   status (job_at (example_run [Error 0 ''timeout'' ''Error: at handler'']) 0) = failed \<and>
   endTime (job_at (example_run [Error 0 ''timeout'' ''Error: at handler'']) 0) = None \<and>
   status_r (getDownloadStatus ''job_00ff00ff00ff00ff'' (example_run [Downloaded 0 [1, 2]])) = completed \<and>
   endTime_r (getDownloadStatus ''job_00ff00ff00ff00ff'' (example_run [Downloaded 0 [1, 2]])) = None"
  by (simp add: example_defs getDownloadStatus_def)

text \<open>
  Claim C9. In every reachable state \<open>failedPacks\<close> of every job is empty, and so is
  \<open>failedPacks\<close> in the status snapshot of every registered job: the handler of a pack
  error appends to \<open>errors\<close> and sets the status to \<open>failed\<close>, and leaves
  \<open>failedPacks\<close> as it is.
\<close>

theorem failedPacks_always_empty:
  assumes "reachable s"
  shows "(\<forall>r < length (objects s). failedPacks (job_at s r) = []) \<and>
         (\<forall>i r. downloadJobs s i = Some r \<longrightarrow> failedPacks_r (getDownloadStatus i s) = []) \<and>
         failedPacks (on_error msg stack j) = failedPacks j \<and>
         status (on_error msg stack j) = failed \<and>
         errors (on_error msg stack j) = errors j @ [(msg, Some stack)]"
proof -
  have 1: "failedPacks (job_at s r) = []" if "r < length (objects s)" for r
    using reachable_job_inv [OF assms that] by (simp add: job_inv_def job_at_def)
  have 2: "failedPacks_r (getDownloadStatus i s) = []" if "downloadJobs s i = Some r" for i r
  proof -
    have "r < length (objects s)"
      using reachable_inv [OF assms] that by (auto simp: state_inv_def)
    then show ?thesis using 1 that by (simp add: getDownloadStatus_def Let_def)
  qed
  from 1 2 show ?thesis by (simp add: on_error_def)
qed

theorem failedPacks_always_empty_witness:
  "reachable (example_run [Downloaded 0 [1], Error 0 ''timeout'' ''Error: at handler'']) \<and>
   downloadJobs (example_run [Downloaded 0 [1], Error 0 ''timeout'' ''Error: at handler''])
     ''job_00ff00ff00ff00ff'' = Some 0 \<and>
   status_r (getDownloadStatus ''job_00ff00ff00ff00ff''
     (example_run [Downloaded 0 [1], Error 0 ''timeout'' ''Error: at handler''])) = failed \<and>
   failedPacks_r (getDownloadStatus ''job_00ff00ff00ff00ff''
     (example_run [Downloaded 0 [1], Error 0 ''timeout'' ''Error: at handler''])) = []"
proof -
  have h: "downloadJobs (example_run [Downloaded 0 [1], Error 0 ''timeout'' ''Error: at handler''])
     ''job_00ff00ff00ff00ff'' = Some 0"
    "status_r (getDownloadStatus ''job_00ff00ff00ff00ff''
     (example_run [Downloaded 0 [1], Error 0 ''timeout'' ''Error: at handler''])) = failed"
    by (simp_all add: example_defs getDownloadStatus_def)
  from failedPacks_always_empty [OF reachable_example_run]
  show ?thesis using h reachable_example_run by blast
qed

section \<open>Rounding error of the progress computation\<close>

lemma pow2_powi: "pow2 k = 2 powi k"
  by (simp add: pow2_def power_int_def inverse_eq_divide power_one_over)

lemma pow2_pos: "0 < pow2 k"
  by (simp add: pow2_powi)

lemma pow2_add: "pow2 (a + b) = pow2 a * pow2 b"
  by (simp add: pow2_powi power_int_add)

lemma pow2_nat: "pow2 (int n) = 2 ^ n"
  by (simp add: pow2_powi)

lemma pow2_diff: "pow2 (a - b) = pow2 a / pow2 b"
  by (simp add: pow2_powi power_int_diff)

lemma bit_length_bounds:
  "0 < n \<Longrightarrow> 2 ^ (bit_length n - 1) \<le> n \<and> n < 2 ^ bit_length n"
proof (induction n rule: bit_length.induct)
  case (1 n)
  show ?case
  proof (cases "n div 2 \<le> 0")
    case True
    with "1.prems" have "n = 1" by linarith
    then show ?thesis by (simp add: bit_length.simps)
  next
    case False
    then have pos: "0 < n div 2" by simp
    from "1.IH" [OF _ pos] "1.prems"
    have ih: "2 ^ (bit_length (n div 2) - 1) \<le> n div 2" "n div 2 < 2 ^ bit_length (n div 2)"
      by simp_all
    have bl: "bit_length n = Suc (bit_length (n div 2))"
      using "1.prems" by (subst bit_length.simps) simp
    have "0 < bit_length (n div 2)" using pos by (subst bit_length.simps) simp
    then obtain m where m: "bit_length (n div 2) = Suc m" by (cases "bit_length (n div 2)") auto
    have "2 * 2 ^ m \<le> 2 * (n div 2)" using ih(1) by (simp add: m)
    also have "\<dots> \<le> n" by simp
    finally have lo: "2 ^ (bit_length n - 1) \<le> n" by (simp add: bl m)
    have "n < 2 * (n div 2) + 2" by linarith
    also have "\<dots> \<le> 2 * 2 ^ bit_length (n div 2)" using ih(2) by simp
    finally have hi: "n < 2 ^ bit_length n" by (simp add: bl)
    from lo hi show ?thesis by blast
  qed
qed

lemma binade_bounds:
  assumes "0 < q"
  shows "pow2 (binade q) \<le> q \<and> q < pow2 (binade q + 1)"
proof -
  define a where "a = fst (quotient_of q)"
  define b where "b = snd (quotient_of q)"
  have qo: "quotient_of q = (a, b)" by (simp add: a_def b_def)
  have bpos: "0 < b" using quotient_of_denom_pos [OF qo] .
  have q: "q = of_int a / of_int b" using quotient_of_div [OF qo] .
  have apos: "0 < a" using assms bpos by (simp add: q zero_less_divide_iff)
  define la where "la = bit_length a"
  define lb where "lb = bit_length b"
  define k where "k = int la - int lb"
  from bit_length_bounds [OF apos] have a: "2 ^ (la - 1) \<le> a" "a < 2 ^ la" by (simp_all add: la_def)
  from bit_length_bounds [OF bpos] have b: "2 ^ (lb - 1) \<le> b" "b < 2 ^ lb" by (simp_all add: lb_def)
  have la0: "0 < la" using apos unfolding la_def by (subst bit_length.simps) simp
  have lb0: "0 < lb" using bpos unfolding lb_def by (subst bit_length.simps) simp
  have ra: "(2::rat) ^ (la - 1) \<le> of_int a" "(of_int a :: rat) < 2 ^ la"
    using a by (metis of_int_le_iff of_int_numeral of_int_power, metis of_int_less_iff of_int_numeral of_int_power)
  have rb: "(2::rat) ^ (lb - 1) \<le> of_int b" "(of_int b :: rat) < 2 ^ lb"
    using b by (metis of_int_le_iff of_int_numeral of_int_power, metis of_int_less_iff of_int_numeral of_int_power)
  have rbpos: "(0::rat) < of_int b" using bpos by simp
  have up: "q < pow2 (k + 1)"
  proof -
    have "q * of_int b = of_int a" using rbpos by (simp add: q)
    also have "\<dots> < 2 ^ la" by (rule ra(2))
    also have "\<dots> = pow2 (k + 1) * 2 ^ (lb - 1)"
    proof -
      have "int la = (k + 1) + int (lb - 1)" using lb0 by (simp add: k_def)
      then have "pow2 (int la) = pow2 (k + 1) * pow2 (int (lb - 1))" by (simp only: pow2_add)
      then show ?thesis by (simp add: pow2_nat)
    qed
    also have "\<dots> \<le> pow2 (k + 1) * of_int b"
      using rb(1) pow2_pos [of "k + 1"] by (simp add: mult_left_mono)
    finally show ?thesis using rbpos by simp
  qed
  have low: "pow2 (k - 1) \<le> q"
  proof -
    have "pow2 (k - 1) * of_int b \<le> pow2 (k - 1) * 2 ^ lb"
      using rb(2) pow2_pos [of "k - 1"] by (simp add: mult_left_mono)
    also have "\<dots> = 2 ^ (la - 1)"
    proof -
      have "int (la - 1) = (k - 1) + int lb" using la0 by (simp add: k_def)
      then have "pow2 (int (la - 1)) = pow2 (k - 1) * pow2 (int lb)" by (simp only: pow2_add)
      then show ?thesis by (simp add: pow2_nat)
    qed
    also have "\<dots> \<le> of_int a" by (rule ra(1))
    also have "\<dots> = q * of_int b" using rbpos by (simp add: q)
    finally show ?thesis using rbpos by simp
  qed
  have bin: "binade q = (if pow2 k \<le> q then k else k - 1)"
    by (simp add: binade_def Let_def a_def b_def k_def la_def lb_def)
  show ?thesis
  proof (cases "pow2 k \<le> q")
    case True
    then show ?thesis using up by (simp add: bin)
  next
    case False
    then show ?thesis using low by (simp add: bin)
  qed
qed

lemma round_ties_even_error: "\<bar>of_int (round_ties_even x) - x\<bar> \<le> 1 / 2"
proof -
  have "of_int \<lfloor>x\<rfloor> \<le> x" "x < of_int \<lfloor>x\<rfloor> + 1" by linarith+
  then show ?thesis by (auto simp: round_ties_even_def Let_def abs_le_iff)
qed

lemma fl_error:
  assumes "0 < q"
  shows "\<bar>fl q - q\<bar> \<le> q / 2 ^ 53"
proof -
  define ulp where "ulp = pow2 (binade q - 52)"
  have upos: "0 < ulp" by (simp add: ulp_def pow2_pos)
  have fl: "fl q = of_int (round_ties_even (q / ulp)) * ulp"
    using assms by (simp add: fl_def Let_def ulp_def)
  have "\<bar>fl q - q\<bar> = \<bar>of_int (round_ties_even (q / ulp)) - q / ulp\<bar> * ulp"
  proof -
    have "fl q - q = (of_int (round_ties_even (q / ulp)) - q / ulp) * ulp"
      using upos by (simp add: fl left_diff_distrib)
    then show ?thesis using upos by (simp add: abs_mult)
  qed
  also have "\<dots> \<le> (1 / 2) * ulp"
    using round_ties_even_error [of "q / ulp"] upos by (simp add: mult_right_mono)
  also have "\<dots> = pow2 (binade q) / 2 ^ 53"
  proof -
    have "pow2 (binade q - 52) = pow2 (binade q) / pow2 52" by (simp only: pow2_diff)
    then show ?thesis by (simp add: ulp_def pow2_def)
  qed
  also have "\<dots> \<le> q / 2 ^ 53"
    using binade_bounds [OF assms] by (simp add: divide_right_mono)
  finally show ?thesis .
qed


text \<open>The percentage is never negative, so its decimal rendering has no sign.\<close>

lemma fl_nonneg: "0 \<le> q \<Longrightarrow> 0 \<le> fl q"
proof -
  assume q: "0 \<le> q"
  have "0 \<le> round_ties_even x" if "0 \<le> x" for x :: rat
  proof -
    have "0 \<le> \<lfloor>x\<rfloor>" using that by simp
    then show ?thesis by (auto simp: round_ties_even_def Let_def)
  qed
  then have "0 \<le> round_ties_even (q / pow2 (binade q - 52))"
    using q pow2_pos [of "binade q - 52"] by simp
  then show ?thesis
    using pow2_pos [of "binade q - 52"] by (simp add: fl_def Let_def)
qed

lemma progressPercent_nonneg: "0 \<le> progressPercent c r"
proof -
  have "0 \<le> fl (of_nat c / of_nat r)" by (rule fl_nonneg) simp
  then have "0 \<le> fl (fl (of_nat c / of_nat r) * 100)" by (intro fl_nonneg) simp
  then have "0 \<le> \<lfloor>fl (fl (of_nat c / of_nat r) * 100) + 1 / 2\<rfloor>" by simp
  then show ?thesis by (simp add: progressPercent_def Math_round_def)
qed

lemma progress_error:
  assumes "0 < r" and "0 < c" and "c < 2 ^ 43"
  shows "\<bar>fl (fl (of_nat c / of_nat r) * 100) - 100 * of_nat c / of_nat r\<bar> < 1 / (2 * of_nat r)"
proof -
  define q :: rat where "q = of_nat c / of_nat r"
  define x1 where "x1 = fl q"
  define y where "y = x1 * 100"
  define x2 where "x2 = fl y"
  define u :: rat where "u = 1 / 2 ^ 53"
  have upos: "0 < u" "u \<le> 1 / 2" by (simp_all add: u_def)
  have qpos: "0 < q" using assms by (simp add: q_def)
  have e1: "\<bar>x1 - q\<bar> \<le> q * u" using fl_error [OF qpos] by (simp add: x1_def u_def)
  then have x1lo: "q - q * u \<le> x1" and x1hi: "x1 \<le> q + q * u" by (simp_all add: abs_le_iff)
  have "q * u \<le> q * (1 / 2)" using upos(2) qpos by (intro mult_left_mono) simp_all
  then have "0 < q - q * u" using qpos by simp
  then have x1pos: "0 < x1" using x1lo by linarith
  then have ypos: "0 < y" by (simp add: y_def)
  have e2: "\<bar>x2 - y\<bar> \<le> y * u" using fl_error [OF ypos] by (simp add: x2_def u_def)
  have "y \<le> 100 * (q + q * u)" using x1hi by (simp add: y_def)
  also have "\<dots> \<le> 100 * (q + q * 1)"
    using upos qpos by (intro mult_left_mono add_left_mono) simp_all
  finally have yb: "y \<le> 200 * q" by simp
  have "\<bar>x2 - 100 * q\<bar> \<le> \<bar>x2 - y\<bar> + \<bar>y - 100 * q\<bar>" by simp
  also have "\<bar>y - 100 * q\<bar> = 100 * \<bar>x1 - q\<bar>"
  proof -
    have "y - 100 * q = 100 * (x1 - q)" by (simp add: y_def)
    then have "\<bar>y - 100 * q\<bar> = \<bar>100 * (x1 - q)\<bar>" by (simp only:)
    also have "\<dots> = \<bar>100\<bar> * \<bar>x1 - q\<bar>" by (rule abs_mult)
    finally show ?thesis by simp
  qed
  also have "\<bar>x2 - y\<bar> + 100 * \<bar>x1 - q\<bar> \<le> y * u + 100 * (q * u)"
    using e1 e2 by (intro add_mono mult_left_mono) simp_all
  also have "\<dots> \<le> (200 * q) * u + 100 * (q * u)"
    using yb upos(1) by (simp add: mult_right_mono)
  also have "\<dots> = 300 * q * u" by simp
  finally have tot: "\<bar>x2 - 100 * q\<bar> \<le> 300 * q * u" .
  have rpos: "(0::rat) < of_nat r" using assms(1) by simp
  have "(600 :: rat) * of_nat c < 600 * 2 ^ 43"
  proof -
    have "(of_nat c :: rat) < of_nat (2 ^ 43)" using assms(3) by (simp only: of_nat_less_iff)
    then show ?thesis by simp
  qed
  also have "\<dots> < (2::rat) ^ 53" by simp
  finally have "600 * of_nat c * u < (1::rat)" by (simp add: u_def)
  then have "300 * q * u < 1 / (2 * of_nat r)"
    using rpos by (simp add: q_def field_simps)
  with tot have "\<bar>x2 - 100 * q\<bar> < 1 / (2 * of_nat r)" by linarith
  then show ?thesis by (simp add: x2_def y_def x1_def q_def)
qed


lemma half_floor_bounds:
  fixes c r :: nat
  assumes "0 < r"
  shows "of_int (int (200 * c + r) div int (2 * r)) \<le> (100 * of_nat c / of_nat r + 1 / 2 :: rat)"
    and "\<not> (2 * r) dvd (200 * c + r) \<Longrightarrow>
      (of_int (int (200 * c + r) div int (2 * r)) + 1 / (2 * of_nat r) :: rat) \<le> 100 * of_nat c / of_nat r + 1 / 2 \<and>
      (100 * of_nat c / of_nat r + 1 / 2 :: rat) \<le> of_int (int (200 * c + r) div int (2 * r)) + 1 - 1 / (2 * of_nat r)"
    and "(2 * r) dvd (200 * c + r) \<Longrightarrow>
      (100 * of_nat c / of_nat r + 1 / 2 :: rat) = of_int (int (200 * c + r) div int (2 * r))"
proof -
  define N where "N = int (200 * c + r)"
  define D where "D = int (2 * r)"
  define F where "F = N div D"
  define m where "m = N mod D"
  have Dpos: "0 < D" using assms by (simp add: D_def)
  have rD: "(0::rat) < of_int D" using Dpos by simp
  have split: "N = D * F + m" by (simp add: F_def m_def)
  have m: "0 \<le> m" "m < D" using Dpos by (simp_all add: m_def)
  have T: "(100 * of_nat c / of_nat r + 1 / 2 :: rat) = of_int N / of_int D"
    using assms by (simp add: N_def D_def field_simps)
  have TF: "(of_int N / of_int D :: rat) = of_int F + of_int m / of_int D"
    using rD by (simp add: split field_simps)
  have Dr: "(of_int D :: rat) = 2 * of_nat r" by (simp add: D_def)
  show "of_int (int (200 * c + r) div int (2 * r)) \<le> (100 * of_nat c / of_nat r + 1 / 2 :: rat)"
    unfolding T TF N_def [symmetric] D_def [symmetric] F_def [symmetric]
    using m(1) rD by simp
  show "(of_int (int (200 * c + r) div int (2 * r)) + 1 / (2 * of_nat r) :: rat) \<le> 100 * of_nat c / of_nat r + 1 / 2 \<and>
      (100 * of_nat c / of_nat r + 1 / 2 :: rat) \<le> of_int (int (200 * c + r) div int (2 * r)) + 1 - 1 / (2 * of_nat r)"
    if "\<not> (2 * r) dvd (200 * c + r)"
  proof -
    have "\<not> D dvd N" unfolding D_def N_def int_dvd_int_iff by (rule that)
    then have "m \<noteq> 0" by (simp add: m_def dvd_eq_mod_eq_0)
    then have m1: "1 \<le> m" "m \<le> D - 1" using m by simp_all
    have "(1 :: rat) \<le> of_int m" using m1(1) by (metis of_int_1 of_int_le_iff)
    then have lo: "1 / of_int D \<le> (of_int m / of_int D :: rat)" using rD by (simp add: divide_right_mono)
    have "(of_int m :: rat) \<le> of_int (D - 1)" using m1(2) by (simp only: of_int_le_iff)
    then have "(of_int m / of_int D :: rat) \<le> of_int (D - 1) / of_int D" using rD by (simp add: divide_right_mono)
    also have "\<dots> = 1 - 1 / of_int D" using rD by (simp add: field_simps)
    finally have hi: "(of_int m / of_int D :: rat) \<le> 1 - 1 / of_int D" .
    show ?thesis
      unfolding T TF N_def [symmetric] D_def [symmetric] F_def [symmetric]
      using lo hi unfolding Dr by simp
  qed
  show "(100 * of_nat c / of_nat r + 1 / 2 :: rat) = of_int (int (200 * c + r) div int (2 * r))"
    if "(2 * r) dvd (200 * c + r)"
  proof -
    have "D dvd N" unfolding D_def N_def int_dvd_int_iff by (rule that)
    then have "m = 0" by (simp add: m_def)
    then show ?thesis
      unfolding T TF N_def [symmetric] D_def [symmetric] F_def [symmetric] by simp
  qed
qed

lemma Math_round_exact:
  fixes c r :: nat
  assumes "0 < r"
  shows "Math_round (100 * of_nat c / of_nat r) = int (200 * c + r) div int (2 * r)"
proof -
  have "(100 * of_nat c / of_nat r + 1 / 2 :: rat) = of_int (int (200 * c + r)) / of_int (int (2 * r))"
    using assms by (simp add: field_simps)
  then show ?thesis unfolding Math_round_def by (simp only: floor_divide_of_int_eq)
qed

lemma progressPercent_no_tie:
  assumes "0 < r" and "c < 2 ^ 43" and "\<not> (2 * r) dvd (200 * c + r)"
  shows "progressPercent c r = Math_round (100 * of_nat c / of_nat r)"
proof (cases "c = 0")
  case True
  then show ?thesis using assms(1) by (simp add: progressPercent_def fl_def)
next
  case False
  then have cpos: "0 < c" by simp
  define x2 where "x2 = fl (fl (of_nat c / of_nat r) * 100)"
  define T :: rat where "T = 100 * of_nat c / of_nat r"
  define F where "F = int (200 * c + r) div int (2 * r)"
  have err: "\<bar>x2 - T\<bar> < 1 / (2 * of_nat r)"
    using progress_error [OF assms(1) cpos assms(2)] by (simp add: x2_def T_def)
  from half_floor_bounds(2) [OF assms(1,3)]
  have b: "of_int F + 1 / (2 * of_nat r) \<le> T + 1 / 2" "T + 1 / 2 \<le> of_int F + 1 - 1 / (2 * of_nat r)"
    by (simp_all add: T_def F_def)
  have "of_int F \<le> x2 + 1 / 2" "x2 + 1 / 2 < of_int F + 1"
    using err b by (simp_all add: abs_less_iff)
  then have "\<lfloor>x2 + 1 / 2\<rfloor> = F" by (rule floor_unique)
  then have "progressPercent c r = F"
    using assms(1) by (simp add: progressPercent_def Math_round_def x2_def)
  then show ?thesis using Math_round_exact [OF assms(1), of c] by (simp add: F_def)
qed

lemma progressPercent_near:
  assumes "0 < r" and "c < 2 ^ 43"
  shows "Math_round (100 * of_nat c / of_nat r) - 1 \<le> progressPercent c r \<and>
         progressPercent c r \<le> Math_round (100 * of_nat c / of_nat r)"
proof (cases "(2 * r) dvd (200 * c + r)")
  case False
  then show ?thesis using progressPercent_no_tie [OF assms] by simp
next
  case True
  have cpos: "0 < c"
  proof (rule ccontr)
    assume "\<not> 0 < c"
    then have "2 * r dvd r" using True by simp
    then show False using assms(1) by (auto dest: dvd_imp_le)
  qed
  define x2 where "x2 = fl (fl (of_nat c / of_nat r) * 100)"
  define T :: rat where "T = 100 * of_nat c / of_nat r"
  define F where "F = int (200 * c + r) div int (2 * r)"
  have err: "\<bar>x2 - T\<bar> < 1 / (2 * of_nat r)"
    using progress_error [OF assms(1) cpos assms(2)] by (simp add: x2_def T_def)
  have "(1 :: rat) \<le> of_nat r" using assms(1) by simp
  then have small: "1 / (2 * of_nat r) \<le> (1 / 2 :: rat)" by (simp add: field_simps)
  have TF: "T + 1 / 2 = of_int F" using half_floor_bounds(3) [OF assms(1) True] by (simp add: T_def F_def)
  have "of_int (F - 1) \<le> x2 + 1 / 2" "x2 + 1 / 2 < of_int F + 1"
    using err small TF by (simp_all add: abs_less_iff)
  then have "F - 1 \<le> \<lfloor>x2 + 1 / 2\<rfloor>" "\<lfloor>x2 + 1 / 2\<rfloor> < F + 1"
    by (subst le_floor_iff, simp, subst floor_less_iff, simp)
  then have "F - 1 \<le> progressPercent c r \<and> progressPercent c r \<le> F"
    using assms(1) by (simp add: progressPercent_def Math_round_def x2_def)
  then show ?thesis using Math_round_exact [OF assms(1), of c] by (simp add: F_def)
qed

section \<open>Status projector\<close>

text \<open>
  Claim C5. For a job id that the registry does not hold, the status query returns the
  snapshot with status \<open>failed\<close>, a message that contains the id, no completed and no
  failed packs, the progress \<open>0%\<close> and no errors. The query is a total function: it
  has no failing branch.
\<close>

theorem unknown_job_snapshot:
  assumes "downloadJobs s job_id = None"
  shows "getDownloadStatus job_id s =
           \<lparr>job_id_r = job_id, status_r = failed, completedPacks_r = [], failedPacks_r = [],
            progress_r = ''0%'', message_r = ''Download job with ID '' @ job_id @ '' not found'',
            errors_r = [], startTime_r = None, endTime_r = None\<rparr> \<and>
         sublist job_id (message_r (getDownloadStatus job_id s))"
proof -
  have 1: "getDownloadStatus job_id s =
           \<lparr>job_id_r = job_id, status_r = failed, completedPacks_r = [], failedPacks_r = [],
            progress_r = ''0%'', message_r = ''Download job with ID '' @ job_id @ '' not found'',
            errors_r = [], startTime_r = None, endTime_r = None\<rparr>"
    using assms by (simp add: getDownloadStatus_def)
  have "sublist job_id (''Download job with ID '' @ job_id @ '' not found'')"
    unfolding sublist_def by blast
  then show ?thesis using 1 by simp
qed

theorem unknown_job_snapshot_witness:
  "downloadJobs (example_run []) ''job_doesnotexist'' = None \<and>
   status_r (getDownloadStatus ''job_doesnotexist'' (example_run [])) = failed \<and>
   message_r (getDownloadStatus ''job_doesnotexist'' (example_run [])) =
     ''Download job with ID job_doesnotexist not found'' \<and>
   completedPacks_r (getDownloadStatus ''job_doesnotexist'' (example_run [])) = [] \<and>
   progress_r (getDownloadStatus ''job_doesnotexist'' (example_run [])) = ''0%''"
proof -
  have h: "downloadJobs (example_run []) ''job_doesnotexist'' = None"
    by (simp add: example_defs)
  from unknown_job_snapshot [OF h] show ?thesis using h by simp
qed


section \<open>Connection pool and job initiator\<close>

lemma getXdcc_present:
  "ircConnections s (connectionKey h p) = Some c \<Longrightarrow> getXdccConnection ok h p n d s = (Inr c, s)"
  by (simp add: getXdccConnection_def)

lemma getXdcc_result:
  assumes "getXdccConnection ok h p n d s = (Inr c, s1)"
  shows "ircConnections s1 (connectionKey h p) = Some c"
  using assms
  by (auto simp: getXdccConnection_def mkdirSync_def existsSync_def Let_def
      split: option.splits sum.splits if_splits)

lemma getXdcc_succeeds:
  assumes "ircConnections s (connectionKey h p) \<noteq> None \<or> existsSync d s \<or> ok"
  shows "\<exists>c s1. getXdccConnection ok h p n d s = (Inr c, s1)"
  using assms
  by (auto simp: getXdccConnection_def mkdirSync_def Let_def split: option.splits)

text \<open>
  Claim C7. After an acquisition for a host and port has returned a connection, any
  further acquisition for the same host and port returns that same connection and leaves
  the whole state, the pool included, as it is, whatever nickname, download path and
  file system answer it is given; the pool holds this one connection under the key.
  An acquisition whose download directory exists never fails, even where creating a
  directory would.
\<close>

theorem pool_acquire_idempotent:
  assumes "getXdccConnection ok1 h p n1 d1 s = (Inr c, s1)"
  shows "getXdccConnection ok2 h p n2 d2 s1 = (Inr c, s1) \<and>
         ircConnections s1 (connectionKey h p) = Some c \<and>
         (\<forall>t h' p' n' d'. existsSync d' t \<longrightarrow>
            (\<exists>c' t'. getXdccConnection False h' p' n' d' t = (Inr c', t')))"
  using getXdcc_result [OF assms] getXdcc_succeeds
  by (simp add: getXdcc_present)

theorem pool_acquire_idempotent_witness:
  "fst (getXdccConnection False ''irc.example.com'' 6667 ''MCPUser'' ''./downloads/''
          (init_state {''./downloads/''})) =
     Inr \<lparr>xdcc_host = ''irc.example.com'', xdcc_port = 6667, xdcc_nickname = ''MCPUser'',
          xdcc_path = ''./downloads/'', xdcc_joined = []\<rparr> \<and>
   getXdccConnection False ''irc.example.com'' 6667 ''Other'' ''./elsewhere/''
     (snd (getXdccConnection False ''irc.example.com'' 6667 ''MCPUser'' ''./downloads/''
            (init_state {''./downloads/''}))) =
     (Inr \<lparr>xdcc_host = ''irc.example.com'', xdcc_port = 6667, xdcc_nickname = ''MCPUser'',
           xdcc_path = ''./downloads/'', xdcc_joined = []\<rparr>,
      snd (getXdccConnection False ''irc.example.com'' 6667 ''MCPUser'' ''./downloads/''
            (init_state {''./downloads/''})))"
proof -
  have sn: "show_nat 6667 = ''6667''" by (simp add: show_nat.simps)
  have f: "fst (getXdccConnection False ''irc.example.com'' 6667 ''MCPUser'' ''./downloads/''
          (init_state {''./downloads/''})) =
     Inr \<lparr>xdcc_host = ''irc.example.com'', xdcc_port = 6667, xdcc_nickname = ''MCPUser'',
          xdcc_path = ''./downloads/'', xdcc_joined = []\<rparr>"
    by (simp add: getXdccConnection_def existsSync_def mkdirSync_def connectionKey_def
        init_state_def sn Let_def)
  then have h: "getXdccConnection False ''irc.example.com'' 6667 ''MCPUser'' ''./downloads/''
          (init_state {''./downloads/''}) =
     (Inr \<lparr>xdcc_host = ''irc.example.com'', xdcc_port = 6667, xdcc_nickname = ''MCPUser'',
           xdcc_path = ''./downloads/'', xdcc_joined = []\<rparr>,
      snd (getXdccConnection False ''irc.example.com'' 6667 ''MCPUser'' ''./downloads/''
            (init_state {''./downloads/''})))"
    by (simp add: prod_eq_iff)
  from pool_acquire_idempotent [OF h, of False "''Other''" "''./elsewhere/''"]
  have "getXdccConnection False ''irc.example.com'' 6667 ''Other'' ''./elsewhere/''
     (snd (getXdccConnection False ''irc.example.com'' 6667 ''MCPUser'' ''./downloads/''
            (init_state {''./downloads/''}))) =
     (Inr \<lparr>xdcc_host = ''irc.example.com'', xdcc_port = 6667, xdcc_nickname = ''MCPUser'',
           xdcc_path = ''./downloads/'', xdcc_joined = []\<rparr>,
      snd (getXdccConnection False ''irc.example.com'' 6667 ''MCPUser'' ''./downloads/''
            (init_state {''./downloads/''})))"
    by blast
  with f show ?thesis by blast
qed

text \<open>
  Claim C8. When the pack expression expands to at least one pack and the connection
  can be acquired, \<open>initiateDownload\<close> returns the job id, the message and the status
  \<open>in_progress\<close>, the job is registered with status \<open>in_progress\<close>, and the transfer
  has not started: its timer is set. When the start of a transfer in that phase fails,
  the handler sets the status of the job to \<open>failed\<close> and appends the error to its
  \<open>errors\<close>; the registry is not touched and the handler has no failing branch.
\<close>

theorem initiate_returns_in_progress:
  assumes "expandPacks (trim (packs p)) = Inr requested" and "requested \<noteq> []"
    and "ircConnections s (connectionKey (trim (host p)) (port p)) \<noteq> None \<or>
         existsSync (trim (download_path p)) s \<or> mkdir_ok e"
  shows "fst (initiateDownload e p s) =
           Inr \<lparr>job_id_i = ''job_'' @ random_hex e,
                message_i = ''Download started for '' @ show_nat (length requested) @ '' file(s)'',
                status_i = in_progress\<rparr> \<and>
         in_phase (length (objects s)) Scheduled (snd (initiateDownload e p s)) \<and>
         downloadJobs (snd (initiateDownload e p s)) (''job_'' @ random_hex e) =
           Some (length (objects s)) \<and>
         status (job_at (snd (initiateDownload e p s)) (length (objects s))) = in_progress \<and>
         errors (job_at (snd (initiateDownload e p s)) (length (objects s))) = [] \<and>
         (\<forall>t r. in_phase r Scheduled t \<longrightarrow>
            status (job_at (perform (Reject r msg stack) t) r) = failed \<and>
            errors (job_at (perform (Reject r msg stack) t) r) = errors (job_at t r) @ [(msg, stack)] \<and>
            downloadJobs (perform (Reject r msg stack) t) = downloadJobs t)"
proof -
  define job where "job = \<lparr>id_j = generateJobId e, host_j = trim (host p), port_j = port p,
      channel_j = trim (channel p), bot_j = trim (bot p), requestedPacks = requested,
      completedPacks = [], failedPacks = [], errors = [], startTime = now e, endTime = None,
      status = in_progress\<rparr>"
  define s1 where "s1 = s\<lparr>objects := objects s @ [(job, Unscheduled)],
      downloadJobs := (downloadJobs s)(generateJobId e \<mapsto> length (objects s))\<rparr>"
  define res where "res = getXdccConnection (mkdir_ok e) (trim (host p)) (port p)
      (trim (nickname p)) (trim (download_path p)) s1"
  have unf: "initiateDownload e p s =
    (case res of (Inl err, s2) \<Rightarrow> (Inl err, s2)
     | (Inr xdcc, s2) \<Rightarrow>
        (Inr \<lparr>job_id_i = generateJobId e,
              message_i = ''Download started for '' @ show_nat (length requested) @ '' file(s)'',
              status_i = in_progress\<rparr>,
         (join (trim (host p)) (port p) (trim (channel p)) s2)
           \<lparr>objects := (objects (join (trim (host p)) (port p) (trim (channel p)) s2))
               [length (objects s) := (job, Scheduled)]\<rparr>))"
    unfolding initiateDownload_def Let_def res_def s1_def job_def using assms(1,2) by simp
  have "ircConnections s1 (connectionKey (trim (host p)) (port p)) \<noteq> None \<or>
         existsSync (trim (download_path p)) s1 \<or> mkdir_ok e"
    using assms(3) by (simp add: s1_def existsSync_def)
  from getXdcc_succeeds [OF this] obtain xdcc s2 where r: "res = (Inr xdcc, s2)"
    unfolding res_def by blast
  have o2: "objects s2 = objects s @ [(job, Unscheduled)]"
    and d2: "downloadJobs s2 = (downloadJobs s)(generateJobId e \<mapsto> length (objects s))"
    using getXdcc_jobs [of "mkdir_ok e" "trim (host p)" "port p" "trim (nickname p)"
        "trim (download_path p)" s1] r
    unfolding res_def [symmetric] by (simp_all add: s1_def)
  define s4 where "s4 = (join (trim (host p)) (port p) (trim (channel p)) s2)
           \<lparr>objects := (objects (join (trim (host p)) (port p) (trim (channel p)) s2))
               [length (objects s) := (job, Scheduled)]\<rparr>"
  have res4: "initiateDownload e p s =
     (Inr \<lparr>job_id_i = generateJobId e,
              message_i = ''Download started for '' @ show_nat (length requested) @ '' file(s)'',
              status_i = in_progress\<rparr>, s4)"
    by (simp add: unf r s4_def)
  have o4: "objects s4 = objects s @ [(job, Scheduled)]"
    and d4: "downloadJobs s4 = (downloadJobs s)(generateJobId e \<mapsto> length (objects s))"
    by (simp_all add: s4_def join_jobs o2 d2)
  have 1: "fst (initiateDownload e p s) =
           Inr \<lparr>job_id_i = ''job_'' @ random_hex e,
                message_i = ''Download started for '' @ show_nat (length requested) @ '' file(s)'',
                status_i = in_progress\<rparr>"
    by (simp add: res4 generateJobId_def)
  have 2: "in_phase (length (objects s)) Scheduled (snd (initiateDownload e p s))"
    by (simp add: res4 in_phase_def o4)
  have 3: "downloadJobs (snd (initiateDownload e p s)) (''job_'' @ random_hex e) =
           Some (length (objects s))"
    by (simp add: res4 d4 generateJobId_def)
  have 4: "status (job_at (snd (initiateDownload e p s)) (length (objects s))) = in_progress"
    "errors (job_at (snd (initiateDownload e p s)) (length (objects s))) = []"
    by (simp_all add: res4 job_at_def o4 job_def)
  have 5: "status (job_at (perform (Reject r msg stack) t) r) = failed \<and>
      errors (job_at (perform (Reject r msg stack) t) r) = errors (job_at t r) @ [(msg, stack)] \<and>
      downloadJobs (perform (Reject r msg stack) t) = downloadJobs t"
    if "in_phase r Scheduled t" for t r
    using that by (simp add: in_phase_def job_at_def update_job_def on_start_failed_def)
  from 1 2 3 4 5 show ?thesis by blast
qed

theorem initiate_returns_in_progress_witness:
  "expandPacks (trim (packs example_params)) = Inr [1, 2] \<and>
   mkdir_ok example_env \<and>
   fst (initiateDownload example_env example_params (init_state {})) =
     Inr \<lparr>job_id_i = ''job_00ff00ff00ff00ff'', message_i = ''Download started for 2 file(s)'',
          status_i = in_progress\<rparr> \<and>
   in_phase 0 Scheduled (snd (initiateDownload example_env example_params (init_state {}))) \<and>
   status (job_at (perform (Reject 0 ''connect ECONNREFUSED'' None)
      (snd (initiateDownload example_env example_params (init_state {})))) 0) = failed \<and>
   errors (job_at (perform (Reject 0 ''connect ECONNREFUSED'' None)
      (snd (initiateDownload example_env example_params (init_state {})))) 0) =
     [(''connect ECONNREFUSED'', None)]"
proof -
  have h: "expandPacks (trim (packs example_params)) = Inr [1, 2]" "[1, 2 :: int] \<noteq> []"
    "ircConnections (init_state {}) (connectionKey (trim (host example_params)) (port example_params)) \<noteq> None \<or>
       existsSync (trim (download_path example_params)) (init_state {}) \<or> mkdir_ok example_env"
    by (simp_all add: expander_defs example_params_def example_env_def upt_rec)
  have sn: "show_nat 2 = ''2''" by (simp add: show_nat.simps)
  note T = initiate_returns_in_progress [OF h, where msg = "''connect ECONNREFUSED''" and stack = None]
  have len: "length (objects (init_state {})) = 0" by (simp add: init_state_def)
  have len2: "length [1, 2 :: int] = 2" by simp
  have hex: "''job_'' @ random_hex example_env = ''job_00ff00ff00ff00ff''"
    and msg: "''Download started for '' @ show_nat 2 @ '' file(s)'' = ''Download started for 2 file(s)''"
    by (simp_all add: example_env_def sn)
  have a: "fst (initiateDownload example_env example_params (init_state {})) =
     Inr \<lparr>job_id_i = ''job_00ff00ff00ff00ff'', message_i = ''Download started for 2 file(s)'',
          status_i = in_progress\<rparr>"
    using T unfolding len2 hex msg by blast
  have b: "in_phase 0 Scheduled (snd (initiateDownload example_env example_params (init_state {})))"
    and e: "errors (job_at (snd (initiateDownload example_env example_params (init_state {}))) 0) = []"
    using T unfolding len by blast+
  have c: "status (job_at (perform (Reject 0 ''connect ECONNREFUSED'' None)
      (snd (initiateDownload example_env example_params (init_state {})))) 0) = failed"
    "errors (job_at (perform (Reject 0 ''connect ECONNREFUSED'' None)
      (snd (initiateDownload example_env example_params (init_state {})))) 0) =
      errors (job_at (snd (initiateDownload example_env example_params (init_state {}))) 0) @
        [(''connect ECONNREFUSED'', None)]"
    using T b by blast+
  have m: "mkdir_ok example_env" by (simp add: example_env_def)
  from a b c e h(1) m show ?thesis by simp
qed


section \<open>Progress arithmetic\<close>

lemma progressPercent_1_4: "progressPercent 1 4 = 25"
  by code_simp

lemma progressPercent_23_40: "progressPercent 23 40 = 57"
  by code_simp

lemma spec_progressPercent_23_40: "spec_progressPercent 23 40 = 58"
  by code_simp

text \<open>
  Claim C6, as stated, fails: the code evaluates \<open>(completed / requested) * 100\<close> in
  doubles, and where the exact value lies half-way between two integers the double can
  fall below it. A job with 40 requested and 23 completed packs reports 57 percent,
  while 100 * 23 / 40 = 57.5 rounds to 58.
\<close>

theorem progress_percent_counterexample:
  "downloadJobs tie_run ''job_00ff00ff00ff00ff'' = Some 0 \<and>
   length (requestedPacks (job_at tie_run 0)) = 40 \<and>
   length (completedPacks (job_at tie_run 0)) = 23 \<and>
   spec_progressPercent 23 40 = 58 \<and>
   progressPercent 23 40 = 57 \<and>
   progress_r (getDownloadStatus ''job_00ff00ff00ff00ff'' tie_run) = ''57% (23/40)''"
proof -
  have j: "downloadJobs tie_run ''job_00ff00ff00ff00ff'' = Some 0"
    by (simp add: tie_run_def example_defs)
  have lr: "length (requestedPacks (job_at tie_run 0)) = 40"
    by (simp add: tie_run_def example_defs)
  have lc: "length (completedPacks (job_at tie_run 0)) = 23"
    by (simp add: tie_run_def example_defs)
  have sn: "show_nat 57 = ''57''" "show_nat 23 = ''23''" "show_nat 40 = ''40''"
    by (simp_all add: show_nat.simps)
  have "progress_r (getDownloadStatus ''job_00ff00ff00ff00ff'' tie_run) = ''57% (23/40)''"
    by (simp add: getDownloadStatus_def Let_def j lr lc progressPercent_23_40 sn)
  with j lr lc spec_progressPercent_23_40 progressPercent_23_40 show ?thesis by blast
qed

text \<open>
  Claim C6, amended. The snapshot of a registered job reports
  \<open>Math.round((|completedPacks| / |requestedPacks|) * 100)\<close>, computed in doubles, and
  0 for no requested pack. For fewer than \<open>2 ^ 43\<close> completed packs this is the exact
  value of \<open>100 * |completedPacks| / |requestedPacks|\<close> rounded to the nearest integer
  whenever that value is not half-way between two integers, and at a half-way value it
  is that rounding or one less. With 4 requested packs and 1 completed the report is 25
  percent, and the message of a job in progress contains \<open>1/4\<close>.
\<close>

theorem progress_snapshot_amended:
  assumes "downloadJobs s i = Some ref"
    and "c = length (completedPacks (job_at s ref))"
    and "r = length (requestedPacks (job_at s ref))"
  shows "progress_r (getDownloadStatus i s) =
           show_nat (nat (progressPercent c r)) @ ''% ('' @ show_nat c @ ''/'' @ show_nat r @ '')'' \<and>
         (r = 0 \<longrightarrow> progressPercent c r = 0) \<and>
         (0 < r \<and> c < 2 ^ 43 \<and> \<not> (2 * r) dvd (200 * c + r) \<longrightarrow>
            progressPercent c r = spec_progressPercent c r) \<and>
         (0 < r \<and> c < 2 ^ 43 \<longrightarrow>
            spec_progressPercent c r - 1 \<le> progressPercent c r \<and>
            progressPercent c r \<le> spec_progressPercent c r) \<and>
         (c = 1 \<and> r = 4 \<and> status (job_at s ref) = in_progress \<longrightarrow>
            progress_r (getDownloadStatus i s) = ''25% (1/4)'' \<and>
            message_r (getDownloadStatus i s) = ''Download in progress: 1/4 packs completed (25%)'' \<and>
            sublist ''1/4'' (message_r (getDownloadStatus i s)))"
proof -
  have 1: "progress_r (getDownloadStatus i s) =
           show_nat (nat (progressPercent c r)) @ ''% ('' @ show_nat c @ ''/'' @ show_nat r @ '')''"
    using assms by (simp add: getDownloadStatus_def Let_def)
  have 2: "r = 0 \<longrightarrow> progressPercent c r = 0" by (simp add: progressPercent_def)
  have 3: "progressPercent c r = spec_progressPercent c r"
    if "0 < r" "c < 2 ^ 43" "\<not> (2 * r) dvd (200 * c + r)"
    using progressPercent_no_tie [OF that] that(1) by (simp add: spec_progressPercent_def)
  have 4: "spec_progressPercent c r - 1 \<le> progressPercent c r \<and>
      progressPercent c r \<le> spec_progressPercent c r" if "0 < r" "c < 2 ^ 43"
    using progressPercent_near [OF that] that(1) by (simp add: spec_progressPercent_def)
  have 5: "progress_r (getDownloadStatus i s) = ''25% (1/4)'' \<and>
      message_r (getDownloadStatus i s) = ''Download in progress: 1/4 packs completed (25%)'' \<and>
      sublist ''1/4'' (message_r (getDownloadStatus i s))"
    if "c = 1" "r = 4" "status (job_at s ref) = in_progress"
  proof -
    have sn: "show_nat 25 = ''25''" "show_nat 1 = ''1''" "show_nat 4 = ''4''"
      by (simp_all add: show_nat.simps)
    have lc: "length (completedPacks (job_at s ref)) = 1"
      and lr: "length (requestedPacks (job_at s ref)) = 4"
      using assms(2,3) that(1,2) by simp_all
    have sn': "show_nat (nat 25) = ''25''" and sn1: "show_nat (Suc 0) = ''1''"
      by (simp_all add: show_nat.simps)
    have pp1: "progressPercent (Suc 0) 4 = 25" using progressPercent_1_4 by simp
    have p: "progress_r (getDownloadStatus i s) = ''25% (1/4)''"
      using 1 unfolding that(1,2) progressPercent_1_4 sn sn' by simp
    have m: "message_r (getDownloadStatus i s) = ''Download in progress: 1/4 packs completed (25%)''"
      using assms(1) that(3)
      by (simp add: getDownloadStatus_def status_message_def Let_def lc lr pp1 sn sn1)
    have "''Download in progress: 1/4 packs completed (25%)'' =
        ''Download in progress: '' @ ''1/4'' @ '' packs completed (25%)''" by simp
    then have "sublist ''1/4'' ''Download in progress: 1/4 packs completed (25%)''"
      unfolding sublist_def by blast
    with p m show ?thesis by simp
  qed
  from 1 2 3 4 5 show ?thesis by blast
qed

theorem progress_snapshot_amended_witness:
  "downloadJobs quarter_run ''job_00ff00ff00ff00ff'' = Some 0 \<and>
   length (completedPacks (job_at quarter_run 0)) = 1 \<and>
   length (requestedPacks (job_at quarter_run 0)) = 4 \<and>
   status (job_at quarter_run 0) = in_progress \<and>
   \<not> (2 * 4) dvd (200 * 1 + (4 :: nat)) \<and>
   progressPercent 1 4 = spec_progressPercent 1 4 \<and>
   progress_r (getDownloadStatus ''job_00ff00ff00ff00ff'' quarter_run) = ''25% (1/4)'' \<and>
   sublist ''1/4'' (message_r (getDownloadStatus ''job_00ff00ff00ff00ff'' quarter_run))"
proof -
  have h: "downloadJobs quarter_run ''job_00ff00ff00ff00ff'' = Some 0"
    "1 = length (completedPacks (job_at quarter_run 0))"
    "4 = length (requestedPacks (job_at quarter_run 0))"
    by (simp_all add: quarter_run_def example_defs)
  have st: "status (job_at quarter_run 0) = in_progress"
    by (simp add: quarter_run_def example_defs)
  have nt: "\<not> (2 * 4) dvd (200 * 1 + (4 :: nat))" "(0::nat) < 4" "(1::nat) < 2 ^ 43" by simp_all
  note T = progress_snapshot_amended [OF h]
  have a: "progressPercent 1 4 = spec_progressPercent 1 4" using T nt by blast
  have b: "progress_r (getDownloadStatus ''job_00ff00ff00ff00ff'' quarter_run) = ''25% (1/4)''"
    "sublist ''1/4'' (message_r (getDownloadStatus ''job_00ff00ff00ff00ff'' quarter_run))"
    using T st by blast+
  from a b h(1) h(2) [symmetric] h(3) [symmetric] st nt(1) show ?thesis by blast
qed

end
